theory Spec2Isabelle
  imports Main "HOL-Library.Word" "HOL-Library.List_Lexorder" "HOL-Library.Char_ord"
begin

section \<open>Values shared by the defragmentation phases\<close>

text \<open>
  The development follows \<^verbatim>\<open>balancer_defragmentation_policy_impl.cpp\<close>. Types whose
  declarations live in headers outside the sources at hand (BSON objects, chunk ranges,
  catalog documents, statuses) are reduced to the fields the policy reads.
\<close>

type_synonym ShardId = string
type_synonym NamespaceString = string
type_synonym UUID = nat
type_synonym uint64 = "64 word"
type_synonym int64 = "64 word"
type_synonym uint32 = "32 word"
type_synonym int32 = "32 word"

text \<open>
  A BSON object used as a shard key value: its position in the key order (what
  \<^verbatim>\<open>woCompare\<close> compares) and its size in bytes (\<^verbatim>\<open>objsize()\<close>, a C++ \<^verbatim>\<open>int\<close>).
\<close>

datatype BSONObj = BSONObj (sortKey: int) (objsize: int32)

definition woCompare :: "BSONObj \<Rightarrow> BSONObj \<Rightarrow> int" where
  "woCompare a b =
     (if sortKey a < sortKey b then - 1 else if sortKey a = sortKey b then 0 else 1)"

record ChunkRange =
  getMin :: BSONObj
  getMax :: BSONObj

text \<open>Modelled from the spec: a chunk range is the half-open interval from min to max;
  the declaration of \<^verbatim>\<open>ChunkRange::containsKey\<close> is in \<^verbatim>\<open>type_chunk.h\<close>.\<close>

definition containsKey :: "ChunkRange \<Rightarrow> BSONObj \<Rightarrow> bool" where
  "containsKey r key \<longleftrightarrow> woCompare (getMin r) key \<le> 0 \<and> woCompare key (getMax r) < 0"

record ChunkVersion =
  combined :: uint64
  epoch :: nat
  timestamp :: nat

record ChunkType =
  ct_collectionUUID :: UUID
  ct_range :: ChunkRange
  ct_version :: "ChunkVersion option"
  ct_shard :: ShardId
  ct_estimatedSizeBytes :: "int64 option"

datatype DefragmentationPhaseEnum = kMergeChunks | kMoveAndMergeChunks | kSplitChunks | kFinished

record CollectionType =
  coll_nss :: NamespaceString
  coll_uuid :: UUID
  coll_keyPattern :: BSONObj
  coll_maxChunkSizeBytes :: "uint64 option"
  coll_defragmentCollection :: bool
  coll_defragmentationPhase :: "DefragmentationPhaseEnum option"

record ShardStatistics =
  stat_shardId :: ShardId
  stat_currSizeBytes :: uint64
  stat_maxSizeBytes :: uint64
  stat_isDraining :: bool

text \<open>The zone table of a collection, read through \<^verbatim>\<open>getZoneForChunk\<close> only.\<close>

type_synonym ZoneInfo = "ChunkRange \<Rightarrow> string"

subsection \<open>Statuses and failures\<close>

text \<open>
  An error code carries whether the table of error categories (outside the sources at
  hand) lists it under \<^verbatim>\<open>ErrorCategory::RetriableError\<close>.
\<close>

datatype ErrorCode = StaleShardVersion | StaleConfig | OtherError (inRetriableCategory: bool) nat

datatype Status = OK | Error ErrorCode

datatype 'a StatusWith = Value 'a | Failed ErrorCode

fun getStatus :: "'a StatusWith \<Rightarrow> Status" where
  "getStatus (Value v) = OK"
| "getStatus (Failed c) = Error c"

fun isRetriableForDefragmentation :: "Status \<Rightarrow> bool" where
  "isRetriableForDefragmentation OK = False"
| "isRetriableForDefragmentation (Error StaleShardVersion) = True"
| "isRetriableForDefragmentation (Error StaleConfig) = True"
| "isRetriableForDefragmentation (Error (OtherError r n)) = r"

text \<open>\<^verbatim>\<open>handleActionResult\<close> runs exactly one of its three callbacks; each argument
  is the state that callback leaves.\<close>

definition handleActionResult :: "Status \<Rightarrow> 'a \<Rightarrow> 'a \<Rightarrow> 'a \<Rightarrow> 'a" where
  "handleActionResult status onSuccess onRetriableError onNonRetriableError =
     (if status = OK then onSuccess
      else if isRetriableForDefragmentation status then onRetriableError
      else onNonRetriableError)"

text \<open>
  What can stop a call: a \<^verbatim>\<open>DBException\<close> (\<^verbatim>\<open>uassert\<close>, a failed catalog access), a
  failed \<^verbatim>\<open>invariant\<close>, \<^verbatim>\<open>std::out_of_range\<close> from \<^verbatim>\<open>at()\<close>, \<^verbatim>\<open>bad_variant_access\<close>
  from \<^verbatim>\<open>stdx::get\<close>, and the use of a list iterator whose element is gone.
\<close>

datatype error = DBException | InvariantFailure | OutOfRange | BadVariantAccess | InvalidIterator

subsection \<open>Actions and responses\<close>

record MergeInfo =
  mi_shardId :: ShardId
  mi_nss :: NamespaceString
  mi_uuid :: UUID
  mi_collectionVersion :: ChunkVersion
  mi_chunkRange :: ChunkRange

record DataSizeInfo =
  ds_shardId :: ShardId
  ds_nss :: NamespaceString
  ds_uuid :: UUID
  ds_chunkRange :: ChunkRange
  ds_version :: ChunkVersion
  ds_keyPattern :: BSONObj
  ds_estimatedValue :: bool

record AutoSplitVectorInfo =
  asv_shardId :: ShardId
  asv_nss :: NamespaceString
  asv_uuid :: UUID
  asv_collectionVersion :: ChunkVersion
  asv_keyPattern :: BSONObj
  asv_minKey :: BSONObj
  asv_maxKey :: BSONObj
  asv_maxChunkSizeBytes :: int64

type_synonym SplitPoints = "BSONObj list"

record SplitInfoWithKeyPattern =
  si_shardId :: ShardId
  si_nss :: NamespaceString
  si_collectionVersion :: ChunkVersion
  si_minKey :: BSONObj
  si_maxKey :: BSONObj
  si_splitKeys :: SplitPoints
  si_uuid :: UUID
  si_keyPattern :: BSONObj

record MigrateInfo =
  mig_nss :: NamespaceString
  mig_uuid :: UUID
  mig_to :: ShardId
  mig_from :: ShardId
  mig_minKey :: BSONObj
  mig_maxKey :: BSONObj
  mig_version :: ChunkVersion

datatype DefragmentationAction =
    Merge MergeInfo
  | DataSize DataSizeInfo
  | AutoSplitVector AutoSplitVectorInfo
  | Split SplitInfoWithKeyPattern
  | Migrate MigrateInfo
  | EndOfActionStream

record DataSizeResponse =
  sizeBytes :: int64
  numObjects :: int64

datatype DefragmentationActionResponse =
    StatusResponse Status
  | DataSizeStatus "DataSizeResponse StatusWith"
  | SplitPointsStatus "SplitPoints StatusWith"

subsection \<open>The catalog\<close>

text \<open>
  The cluster catalog, the balancer configuration, the cluster statistics and the
  persistence layer are collaborators outside the sources at hand. One call of the policy
  reads them as a snapshot: every read is a function of its arguments, \<open>None\<close> when the
  access throws a \<^verbatim>\<open>DBException\<close>; a write is its outcome, \<open>False\<close> when it throws.
  \<open>cat_getChunks\<close> is the chunk list of a collection sorted by min;
  \<open>cat_getNewestChunkOfShard\<close> is the query of \<^verbatim>\<open>getShardVersion\<close> (the chunks of one
  shard, newest version first, at most one).
\<close>

record Catalog =
  cat_getCollection :: "UUID \<Rightarrow> CollectionType option"
  cat_getChunks :: "CollectionType \<Rightarrow> ChunkType list option"
  cat_getNewestChunkOfShard :: "CollectionType \<Rightarrow> ShardId \<Rightarrow> ChunkType list option"
  cat_getZones :: "CollectionType \<Rightarrow> ZoneInfo option"
  cat_balancerMaxChunkSizeBytes :: "uint64 option"
  cat_getCollStats :: "NamespaceString \<Rightarrow> ShardStatistics list option"
  cat_setChunkEstimatedSize :: "ChunkType \<Rightarrow> int64 \<Rightarrow> bool"
  cat_persistPhaseUpdate :: "DefragmentationPhaseEnum \<Rightarrow> UUID \<Rightarrow> bool"
  cat_clearDataSizeInformation :: "UUID \<Rightarrow> bool"

definition getShardVersion :: "Catalog \<Rightarrow> ShardId \<Rightarrow> UUID \<Rightarrow> error + ChunkVersion" where
  "getShardVersion cat shardId uuid =
     (case cat_getCollection cat uuid of
        None \<Rightarrow> Inl DBException
      | Some coll \<Rightarrow>
          (case cat_getNewestChunkOfShard cat coll shardId of
             None \<Rightarrow> Inl DBException
           | Some chunkVector \<Rightarrow>
               (case chunkVector of
                  [] \<Rightarrow> Inl DBException
                | front # _ \<Rightarrow>
                    (case ct_version front of
                       None \<Rightarrow> Inl DBException
                     | Some v \<Rightarrow> Inr v))))"

definition getCollectionChunks :: "Catalog \<Rightarrow> CollectionType \<Rightarrow> error + ChunkType list" where
  "getCollectionChunks cat coll =
     (case cat_getChunks cat coll of None \<Rightarrow> Inl DBException | Some cs \<Rightarrow> Inr cs)"

definition getCollectionMaxChunkSizeBytes :: "Catalog \<Rightarrow> CollectionType \<Rightarrow> error + uint64" where
  "getCollectionMaxChunkSizeBytes cat coll =
     (case cat_balancerMaxChunkSizeBytes cat of
        None \<Rightarrow> Inl DBException
      | Some configured \<Rightarrow>
          Inr (case coll_maxChunkSizeBytes coll of None \<Rightarrow> configured | Some m \<Rightarrow> m))"

subsection \<open>Ordered maps\<close>

text \<open>
  A \<^verbatim>\<open>std::map\<close> is an association list kept in key order, so that \<^verbatim>\<open>begin()\<close> is its
  head. \<open>map_index\<close> is \<^verbatim>\<open>operator[]\<close> followed by an assignment to the entry.
\<close>

fun map_put :: "'k::linorder \<Rightarrow> 'v \<Rightarrow> ('k \<times> 'v) list \<Rightarrow> ('k \<times> 'v) list" where
  "map_put k v [] = [(k, v)]"
| "map_put k v ((k', v') # m) =
     (if k = k' then (k, v) # m
      else if k < k' then (k, v) # (k', v') # m
      else (k', v') # map_put k v m)"

definition map_erase :: "'k \<Rightarrow> ('k \<times> 'v) list \<Rightarrow> ('k \<times> 'v) list" where
  "map_erase k m = filter (\<lambda>kv. fst kv \<noteq> k) m"

definition map_index :: "'k::linorder \<Rightarrow> 'v \<Rightarrow> ('v \<Rightarrow> 'v) \<Rightarrow> ('k \<times> 'v) list \<Rightarrow> ('k \<times> 'v) list" where
  "map_index k dflt f m =
     map_put k (f (case map_of m k of None \<Rightarrow> dflt | Some v \<Rightarrow> v)) m"

section \<open>The phase that merges adjacent chunks\<close>

record MergePendingActions =
  rangesToMerge :: "ChunkRange list"
  rangesWithoutDataSize :: "ChunkRange list"

definition emptyMergePendingActions :: MergePendingActions where
  "emptyMergePendingActions = \<lparr>rangesToMerge = [], rangesWithoutDataSize = []\<rparr>"

record MergeChunksPhase =
  mc_nss :: NamespaceString
  mc_uuid :: UUID
  mc_shardKey :: BSONObj
  mc_pendingActionsByShards :: "(ShardId \<times> MergePendingActions) list"
  mc_outstandingActions :: uint64
  mc_aborted :: bool
  mc_nextPhase :: DefragmentationPhaseEnum

definition mc_getType :: "MergeChunksPhase \<Rightarrow> DefragmentationPhaseEnum" where
  "mc_getType p = kMergeChunks"

definition mc_getNextPhase :: "MergeChunksPhase \<Rightarrow> DefragmentationPhaseEnum" where
  "mc_getNextPhase p = mc_nextPhase p"

definition mc_isComplete :: "MergeChunksPhase \<Rightarrow> bool" where
  "mc_isComplete p \<longleftrightarrow> mc_pendingActionsByShards p = [] \<and> mc_outstandingActions p = 0"

definition mc_abort :: "DefragmentationPhaseEnum \<Rightarrow> MergeChunksPhase \<Rightarrow> MergeChunksPhase" where
  "mc_abort nextPhase p =
     p\<lparr>mc_aborted := True, mc_nextPhase := nextPhase, mc_pendingActionsByShards := []\<rparr>"

text \<open>
  \<^verbatim>\<open>popNextStreamableAction\<close>: the shard version is read before anything is changed, so
  a failure leaves the phase as it was.
\<close>

definition mc_popNextStreamableAction ::
  "Catalog \<Rightarrow> MergeChunksPhase \<Rightarrow> error + (DefragmentationAction option \<times> MergeChunksPhase)" where
  "mc_popNextStreamableAction cat p =
     (case mc_pendingActionsByShards p of
        [] \<Rightarrow> Inr (None, p)
      | (shardId, pendingActions) # _ \<Rightarrow>
          (case getShardVersion cat shardId (mc_uuid p) of
             Inl e \<Rightarrow> Inl e
           | Inr shardVersion \<Rightarrow>
               if length (rangesWithoutDataSize pendingActions)
                    > length (rangesToMerge pendingActions)
               then
                 let rangeToMeasure = last (rangesWithoutDataSize pendingActions);
                     nextAction = DataSize \<lparr>ds_shardId = shardId, ds_nss = mc_nss p,
                        ds_uuid = mc_uuid p, ds_chunkRange = rangeToMeasure,
                        ds_version = shardVersion, ds_keyPattern = mc_shardKey p,
                        ds_estimatedValue = False\<rparr>;
                     pendingActions' = pendingActions
                        \<lparr>rangesWithoutDataSize := butlast (rangesWithoutDataSize pendingActions)\<rparr>
                 in Inr (Some nextAction,
                      p\<lparr>mc_outstandingActions := mc_outstandingActions p + 1,
                        mc_pendingActionsByShards :=
                          (if rangesToMerge pendingActions' = []
                              \<and> rangesWithoutDataSize pendingActions' = []
                           then map_erase shardId (mc_pendingActionsByShards p)
                           else map_put shardId pendingActions' (mc_pendingActionsByShards p))\<rparr>)
               else if rangesToMerge pendingActions \<noteq> []
               then
                 let rangeToMerge = last (rangesToMerge pendingActions);
                     nextAction = Merge \<lparr>mi_shardId = shardId, mi_nss = mc_nss p,
                        mi_uuid = mc_uuid p, mi_collectionVersion = shardVersion,
                        mi_chunkRange = rangeToMerge\<rparr>;
                     pendingActions' = pendingActions
                        \<lparr>rangesToMerge := butlast (rangesToMerge pendingActions)\<rparr>
                 in Inr (Some nextAction,
                      p\<lparr>mc_outstandingActions := mc_outstandingActions p + 1,
                        mc_pendingActionsByShards :=
                          (if rangesToMerge pendingActions' = []
                              \<and> rangesWithoutDataSize pendingActions' = []
                           then map_erase shardId (mc_pendingActionsByShards p)
                           else map_put shardId pendingActions' (mc_pendingActionsByShards p))\<rparr>)
               else Inr (None, p)))"

definition mc_popNextMigration ::
  "ShardId set \<Rightarrow> MergeChunksPhase \<Rightarrow> MigrateInfo option" where
  "mc_popNextMigration usedShards p = None"

text \<open>
  \<^verbatim>\<open>applyActionResult\<close>. The scope guard lowers \<^verbatim>\<open>_outstandingActions\<close> on every way
  out, also when the call throws, so the result is the phase left behind together with
  the exception, if any. \<^verbatim>\<open>_pendingActionsByShards[shardId]\<close> creates the entry of the
  shard before the status is looked at.
\<close>

definition mc_applyMergeResult ::
  "MergeInfo \<Rightarrow> Status \<Rightarrow> MergeChunksPhase \<Rightarrow> MergeChunksPhase" where
  "mc_applyMergeResult mergeAction mergeResponse p =
     (let p1 = p\<lparr>mc_pendingActionsByShards :=
                   map_index (mi_shardId mergeAction) emptyMergePendingActions (\<lambda>a. a)
                     (mc_pendingActionsByShards p)\<rparr>
      in handleActionResult mergeResponse
           (p1\<lparr>mc_pendingActionsByShards :=
                 map_index (mi_shardId mergeAction) emptyMergePendingActions
                   (\<lambda>a. a\<lparr>rangesWithoutDataSize :=
                            rangesWithoutDataSize a @ [mi_chunkRange mergeAction]\<rparr>)
                   (mc_pendingActionsByShards p1)\<rparr>)
           (p1\<lparr>mc_pendingActionsByShards :=
                 map_index (mi_shardId mergeAction) emptyMergePendingActions
                   (\<lambda>a. a\<lparr>rangesToMerge := rangesToMerge a @ [mi_chunkRange mergeAction]\<rparr>)
                   (mc_pendingActionsByShards p1)\<rparr>)
           (mc_abort (mc_getType p1) p1))"

definition mc_applyDataSizeResult ::
  "Catalog \<Rightarrow> DataSizeInfo \<Rightarrow> DataSizeResponse StatusWith \<Rightarrow> MergeChunksPhase
     \<Rightarrow> error option \<times> MergeChunksPhase" where
  "mc_applyDataSizeResult cat dataSizeAction dataSizeResponse p =
     handleActionResult (getStatus dataSizeResponse)
       (case dataSizeResponse of
          Value r \<Rightarrow>
            (if cat_setChunkEstimatedSize cat
                  \<lparr>ct_collectionUUID = ds_uuid dataSizeAction,
                   ct_range = ds_chunkRange dataSizeAction,
                   ct_version = Some (ds_version dataSizeAction),
                   ct_shard = ds_shardId dataSizeAction,
                   ct_estimatedSizeBytes = None\<rparr> (sizeBytes r)
             then (None, p) else (Some DBException, p))
        | Failed c \<Rightarrow> (None, p))
       (None, p\<lparr>mc_pendingActionsByShards :=
                  map_index (ds_shardId dataSizeAction) emptyMergePendingActions
                    (\<lambda>a. a\<lparr>rangesWithoutDataSize :=
                             rangesWithoutDataSize a @ [ds_chunkRange dataSizeAction]\<rparr>)
                    (mc_pendingActionsByShards p)\<rparr>)
       (None, mc_abort (mc_getType p) p)"

definition mc_applyActionResult ::
  "Catalog \<Rightarrow> DefragmentationAction \<Rightarrow> DefragmentationActionResponse \<Rightarrow> MergeChunksPhase
     \<Rightarrow> error option \<times> MergeChunksPhase" where
  "mc_applyActionResult cat action response p =
     (let (thrown, p') =
        (if mc_aborted p then (None, p)
         else case action of
             Merge mergeAction \<Rightarrow>
               (case response of
                  StatusResponse mergeResponse \<Rightarrow>
                    (None, mc_applyMergeResult mergeAction mergeResponse p)
                | _ \<Rightarrow> (Some BadVariantAccess, p))
           | DataSize dataSizeAction \<Rightarrow>
               (case response of
                  DataSizeStatus dataSizeResponse \<Rightarrow>
                    mc_applyDataSizeResult cat dataSizeAction dataSizeResponse p
                | _ \<Rightarrow> (Some BadVariantAccess, p))
           | _ \<Rightarrow> (Some DBException, p))
      in (thrown, p'\<lparr>mc_outstandingActions := mc_outstandingActions p' - 1\<rparr>))"

text \<open>
  \<^verbatim>\<open>build\<close> scans the chunk list from its back. \<open>stepLowerBound\<close> is the inner loop: it
  walks \<^verbatim>\<open>lowerRangeBound\<close> towards the front while the chunk before it is consecutive;
  its second argument is the part of the vector before \<^verbatim>\<open>lowerRangeBound\<close>, nearest
  chunk first. The bounds differ exactly when the walk consumed a chunk.
\<close>

definition areConsecutive :: "ZoneInfo \<Rightarrow> ChunkType \<Rightarrow> ChunkType \<Rightarrow> bool" where
  "areConsecutive collectionZones firstChunk secondChunk \<longleftrightarrow>
     ct_shard firstChunk = ct_shard secondChunk
     \<and> collectionZones (ct_range firstChunk) = collectionZones (ct_range secondChunk)
     \<and> woCompare (getMax (ct_range firstChunk)) (getMin (ct_range secondChunk)) = 0"

fun stepLowerBound :: "ZoneInfo \<Rightarrow> ChunkType \<Rightarrow> ChunkType list \<Rightarrow> ChunkType \<times> ChunkType list" where
  "stepLowerBound zones lowerRangeBound [] = (lowerRangeBound, [])"
| "stepLowerBound zones lowerRangeBound (previous # before) =
     (if areConsecutive zones previous lowerRangeBound
      then stepLowerBound zones previous before
      else (lowerRangeBound, previous # before))"

lemma stepLowerBound_length:
  "length (snd (stepLowerBound zones lower before)) \<le> length before"
  by (induction before arbitrary: lower) (auto intro: le_SucI)

function mc_buildPending ::
  "ZoneInfo \<Rightarrow> ChunkType list \<Rightarrow> (ShardId \<times> MergePendingActions) list
     \<Rightarrow> (ShardId \<times> MergePendingActions) list" where
  "mc_buildPending zones [] pendingActionsByShards = pendingActionsByShards"
| "mc_buildPending zones (upperRangeBound # before) pendingActionsByShards =
     (let lowerRangeBound = fst (stepLowerBound zones upperRangeBound before);
          before' = snd (stepLowerBound zones upperRangeBound before)
      in mc_buildPending zones before'
           (if length before' < length before
            then map_index (ct_shard upperRangeBound) emptyMergePendingActions
                   (\<lambda>a. a\<lparr>rangesToMerge := rangesToMerge a @
                      [\<lparr>getMin = getMin (ct_range lowerRangeBound),
                        getMax = getMax (ct_range upperRangeBound)\<rparr>]\<rparr>)
                   pendingActionsByShards
            else if ct_estimatedSizeBytes upperRangeBound = None
            then map_index (ct_shard upperRangeBound) emptyMergePendingActions
                   (\<lambda>a. a\<lparr>rangesWithoutDataSize := rangesWithoutDataSize a @
                      [\<lparr>getMin = getMin (ct_range upperRangeBound),
                        getMax = getMax (ct_range upperRangeBound)\<rparr>]\<rparr>)
                   pendingActionsByShards
            else pendingActionsByShards))"
  by pat_completeness auto
termination
  by (relation "measure (\<lambda>(zones, chunks, pending). length chunks)")
     (auto simp: stepLowerBound_length le_imp_less_Suc)

definition mc_build :: "Catalog \<Rightarrow> CollectionType \<Rightarrow> error + MergeChunksPhase" where
  "mc_build cat coll =
     (case getCollectionChunks cat coll of
        Inl e \<Rightarrow> Inl e
      | Inr collectionChunks \<Rightarrow>
          (case cat_getZones cat coll of
             None \<Rightarrow> Inl DBException
           | Some collectionZones \<Rightarrow>
               Inr \<lparr>mc_nss = coll_nss coll, mc_uuid = coll_uuid coll,
                    mc_shardKey = coll_keyPattern coll,
                    mc_pendingActionsByShards =
                      mc_buildPending collectionZones (rev collectionChunks) [],
                    mc_outstandingActions = 0, mc_aborted = False,
                    mc_nextPhase = kMoveAndMergeChunks\<rparr>))"

section \<open>The phase that splits oversized chunks\<close>

record SplitPendingActions =
  rangesToFindSplitPoints :: "ChunkRange list"
  rangesToSplit :: "(ChunkRange \<times> SplitPoints) list"

definition emptySplitPendingActions :: SplitPendingActions where
  "emptySplitPendingActions = \<lparr>rangesToFindSplitPoints = [], rangesToSplit = []\<rparr>"

record SplitChunksPhase =
  sc_nss :: NamespaceString
  sc_uuid :: UUID
  sc_shardKey :: BSONObj
  sc_maxChunkSizeBytes :: int64
  sc_pendingActionsByShards :: "(ShardId \<times> SplitPendingActions) list"
  sc_outstandingActions :: uint64
  sc_aborted :: bool
  sc_nextPhase :: DefragmentationPhaseEnum

definition sc_getType :: "SplitChunksPhase \<Rightarrow> DefragmentationPhaseEnum" where
  "sc_getType p = kSplitChunks"

definition sc_getNextPhase :: "SplitChunksPhase \<Rightarrow> DefragmentationPhaseEnum" where
  "sc_getNextPhase p = sc_nextPhase p"

definition sc_isComplete :: "SplitChunksPhase \<Rightarrow> bool" where
  "sc_isComplete p \<longleftrightarrow> sc_pendingActionsByShards p = [] \<and> sc_outstandingActions p = 0"

definition sc_abort :: "DefragmentationPhaseEnum \<Rightarrow> SplitChunksPhase \<Rightarrow> SplitChunksPhase" where
  "sc_abort nextPhase p =
     p\<lparr>sc_aborted := True, sc_nextPhase := nextPhase, sc_pendingActionsByShards := []\<rparr>"

text \<open>\<^verbatim>\<open>build\<close>: a chunk is queued when it has no estimated size or when its size, read
  as unsigned, is above the maximum chunk size.\<close>

fun sc_buildPending ::
  "uint64 \<Rightarrow> ChunkType list \<Rightarrow> (ShardId \<times> SplitPendingActions) list
     \<Rightarrow> (ShardId \<times> SplitPendingActions) list" where
  "sc_buildPending maxChunkSizeBytes [] pendingActionsByShards = pendingActionsByShards"
| "sc_buildPending maxChunkSizeBytes (chunk # chunks) pendingActionsByShards =
     sc_buildPending maxChunkSizeBytes chunks
       (if (case ct_estimatedSizeBytes chunk of
              None \<Rightarrow> True | Some chunkSize \<Rightarrow> chunkSize > maxChunkSizeBytes)
        then map_index (ct_shard chunk) emptySplitPendingActions
               (\<lambda>a. a\<lparr>rangesToFindSplitPoints := rangesToFindSplitPoints a @
                  [\<lparr>getMin = getMin (ct_range chunk), getMax = getMax (ct_range chunk)\<rparr>]\<rparr>)
               pendingActionsByShards
        else pendingActionsByShards)"

definition sc_build :: "Catalog \<Rightarrow> CollectionType \<Rightarrow> error + SplitChunksPhase" where
  "sc_build cat coll =
     (case cat_getChunks cat coll of
        None \<Rightarrow> Inl DBException
      | Some collectionChunks \<Rightarrow>
          (case getCollectionMaxChunkSizeBytes cat coll of
             Inl e \<Rightarrow> Inl e
           | Inr maxChunkSizeBytes \<Rightarrow>
               Inr \<lparr>sc_nss = coll_nss coll, sc_uuid = coll_uuid coll,
                    sc_shardKey = coll_keyPattern coll,
                    sc_maxChunkSizeBytes = maxChunkSizeBytes,
                    sc_pendingActionsByShards =
                      sc_buildPending maxChunkSizeBytes collectionChunks [],
                    sc_outstandingActions = 0, sc_aborted = False,
                    sc_nextPhase = kFinished\<rparr>))"

definition sc_popNextStreamableAction ::
  "Catalog \<Rightarrow> SplitChunksPhase \<Rightarrow> error + (DefragmentationAction option \<times> SplitChunksPhase)" where
  "sc_popNextStreamableAction cat p =
     (case sc_pendingActionsByShards p of
        [] \<Rightarrow> Inr (None, p)
      | (shardId, pendingActions) # _ \<Rightarrow>
          (case getShardVersion cat shardId (sc_uuid p) of
             Inl e \<Rightarrow> Inl e
           | Inr shardVersion \<Rightarrow>
               if rangesToSplit pendingActions \<noteq> []
               then
                 let rangeToSplit = fst (last (rangesToSplit pendingActions));
                     splitPoints = snd (last (rangesToSplit pendingActions));
                     nextAction = Split \<lparr>si_shardId = shardId, si_nss = sc_nss p,
                        si_collectionVersion = shardVersion,
                        si_minKey = getMin rangeToSplit, si_maxKey = getMax rangeToSplit,
                        si_splitKeys = splitPoints, si_uuid = sc_uuid p,
                        si_keyPattern = sc_shardKey p\<rparr>;
                     pendingActions' = pendingActions
                        \<lparr>rangesToSplit := butlast (rangesToSplit pendingActions)\<rparr>
                 in Inr (Some nextAction,
                      p\<lparr>sc_outstandingActions := sc_outstandingActions p + 1,
                        sc_pendingActionsByShards :=
                          (if rangesToFindSplitPoints pendingActions' = []
                              \<and> rangesToSplit pendingActions' = []
                           then map_erase shardId (sc_pendingActionsByShards p)
                           else map_put shardId pendingActions' (sc_pendingActionsByShards p))\<rparr>)
               else if rangesToFindSplitPoints pendingActions \<noteq> []
               then
                 let rangeToAutoSplit = last (rangesToFindSplitPoints pendingActions);
                     nextAction = AutoSplitVector \<lparr>asv_shardId = shardId, asv_nss = sc_nss p,
                        asv_uuid = sc_uuid p, asv_collectionVersion = shardVersion,
                        asv_keyPattern = sc_shardKey p,
                        asv_minKey = getMin rangeToAutoSplit,
                        asv_maxKey = getMax rangeToAutoSplit,
                        asv_maxChunkSizeBytes = sc_maxChunkSizeBytes p\<rparr>;
                     pendingActions' = pendingActions
                        \<lparr>rangesToFindSplitPoints :=
                           butlast (rangesToFindSplitPoints pendingActions)\<rparr>
                 in Inr (Some nextAction,
                      p\<lparr>sc_outstandingActions := sc_outstandingActions p + 1,
                        sc_pendingActionsByShards :=
                          (if rangesToFindSplitPoints pendingActions' = []
                              \<and> rangesToSplit pendingActions' = []
                           then map_erase shardId (sc_pendingActionsByShards p)
                           else map_put shardId pendingActions' (sc_pendingActionsByShards p))\<rparr>)
               else Inr (None, p)))"

definition sc_popNextMigration ::
  "ShardId set \<Rightarrow> SplitChunksPhase \<Rightarrow> MigrateInfo option" where
  "sc_popNextMigration usedShards p = None"

text \<open>
  \<^verbatim>\<open>moreSplitPointsToReceive\<close> adds the sizes up in a C++ \<^verbatim>\<open>int\<close> and compares the total,
  as a signed number, with \<^verbatim>\<open>BSONObjMaxUserSize - 4096\<close>. The constant is declared outside
  the sources at hand and is a parameter here. Additions wrap around where C++ leaves the
  overflow undefined.
\<close>

definition addBSONSize :: "int32 \<Rightarrow> BSONObj \<Rightarrow> int32" where
  "addBSONSize sz obj = sz + objsize obj"

definition moreSplitPointsToReceive :: "int32 \<Rightarrow> SplitPoints \<Rightarrow> bool" where
  "moreSplitPointsToReceive BSONObjMaxUserSize splitPoints =
     (let totalSize = foldl addBSONSize 0 splitPoints
      in sint totalSize \<ge> sint (BSONObjMaxUserSize - 4096))"

definition sc_applyAutoSplitVectorResult ::
  "int32 \<Rightarrow> AutoSplitVectorInfo \<Rightarrow> SplitPoints StatusWith \<Rightarrow> SplitChunksPhase
     \<Rightarrow> SplitChunksPhase" where
  "sc_applyAutoSplitVectorResult BSONObjMaxUserSize autoSplitVectorAction splitVectorResponse p =
     handleActionResult (getStatus splitVectorResponse)
       (case splitVectorResponse of
          Value splitPoints \<Rightarrow>
            if splitPoints \<noteq> []
            then p\<lparr>sc_pendingActionsByShards :=
                     map_index (asv_shardId autoSplitVectorAction) emptySplitPendingActions
                       (\<lambda>a. (a\<lparr>rangesToSplit := rangesToSplit a @
                                 [(\<lparr>getMin = asv_minKey autoSplitVectorAction,
                                    getMax = asv_maxKey autoSplitVectorAction\<rparr>, splitPoints)]\<rparr>)
                             \<lparr>rangesToFindSplitPoints :=
                                (if moreSplitPointsToReceive BSONObjMaxUserSize splitPoints
                                 then rangesToFindSplitPoints a @
                                   [\<lparr>getMin = last splitPoints,
                                     getMax = asv_maxKey autoSplitVectorAction\<rparr>]
                                 else rangesToFindSplitPoints a)\<rparr>)
                       (sc_pendingActionsByShards p)\<rparr>
            else p
        | Failed c \<Rightarrow> p)
       (p\<lparr>sc_pendingActionsByShards :=
            map_index (asv_shardId autoSplitVectorAction) emptySplitPendingActions
              (\<lambda>a. a\<lparr>rangesToFindSplitPoints := rangesToFindSplitPoints a @
                       [\<lparr>getMin = asv_minKey autoSplitVectorAction,
                         getMax = asv_maxKey autoSplitVectorAction\<rparr>]\<rparr>)
              (sc_pendingActionsByShards p)\<rparr>)
       (sc_abort (sc_getType p) p)"

definition sc_applySplitResult ::
  "SplitInfoWithKeyPattern \<Rightarrow> Status \<Rightarrow> SplitChunksPhase \<Rightarrow> SplitChunksPhase" where
  "sc_applySplitResult splitAction splitResponse p =
     handleActionResult splitResponse
       p
       (p\<lparr>sc_pendingActionsByShards :=
            map_index (si_shardId splitAction) emptySplitPendingActions
              (\<lambda>a. a\<lparr>rangesToSplit := rangesToSplit a @
                       [(\<lparr>getMin = si_minKey splitAction, getMax = si_maxKey splitAction\<rparr>,
                         si_splitKeys splitAction)]\<rparr>)
              (sc_pendingActionsByShards p)\<rparr>)
       (sc_abort (sc_getType p) p)"

definition sc_applyActionResult ::
  "int32 \<Rightarrow> DefragmentationAction \<Rightarrow> DefragmentationActionResponse \<Rightarrow> SplitChunksPhase
     \<Rightarrow> error option \<times> SplitChunksPhase" where
  "sc_applyActionResult BSONObjMaxUserSize action response p =
     (let (thrown, p') =
        (if sc_aborted p then (None, p)
         else case action of
             AutoSplitVector autoSplitVectorAction \<Rightarrow>
               (case response of
                  SplitPointsStatus splitVectorResponse \<Rightarrow>
                    (None, sc_applyAutoSplitVectorResult BSONObjMaxUserSize
                             autoSplitVectorAction splitVectorResponse p)
                | _ \<Rightarrow> (Some BadVariantAccess, p))
           | Split splitAction \<Rightarrow>
               (case response of
                  StatusResponse splitResponse \<Rightarrow>
                    (None, sc_applySplitResult splitAction splitResponse p)
                | _ \<Rightarrow> (Some BadVariantAccess, p))
           | _ \<Rightarrow> (Some DBException, p))
      in (thrown, p'\<lparr>sc_outstandingActions := sc_outstandingActions p' - 1\<rparr>))"

section \<open>The phase that moves and merges small chunks\<close>

record ChunkRangeInfo =
  cri_range :: ChunkRange
  cri_shard :: ShardId
  cri_estimatedSizeBytes :: int64
  cri_busyInOperation :: bool

text \<open>
  \<^verbatim>\<open>_collectionChunks\<close> is a \<^verbatim>\<open>std::list\<close> whose iterators are kept in other containers. An
  iterator is a number given to the element when it is inserted; the list pairs each
  element with its iterator, so an iterator whose element has been erased finds nothing.
\<close>

type_synonym ChunkRangeInfoIterator = nat
type_synonym ChunkRangeInfos = "(ChunkRangeInfoIterator \<times> ChunkRangeInfo) list"

record ShardInfo =
  currentSizeBytes :: uint64
  maxSizeBytes :: uint64
  draining :: bool

definition canReceiveNewChunks :: "ShardInfo \<Rightarrow> bool" where
  "canReceiveNewChunks s =
     (if draining s then False
      else (maxSizeBytes s = 0 \<or> currentSizeBytes s < maxSizeBytes s))"

record MoveAndMergeRequest =
  chunkToMove :: ChunkRangeInfoIterator
  chunkToMergeWith :: ChunkRangeInfoIterator
  isChunkToMergeLeftSibling :: bool

record MoveAndMergeChunksPhase =
  mm_nss :: NamespaceString
  mm_uuid :: UUID
  mm_collectionChunks :: ChunkRangeInfos
  mm_smallChunksByShard :: "(ShardId \<times> ChunkRangeInfoIterator list) list"
  mm_shardInfos :: "(ShardId \<times> ShardInfo) list"
  mm_shardProcessingOrder :: "ShardId list"
  mm_outstandingMigrations :: "MoveAndMergeRequest list"
  mm_actionableMerges :: "MoveAndMergeRequest list"
  mm_outstandingMerges :: "MoveAndMergeRequest list"
  mm_zoneInfo :: ZoneInfo
  mm_smallChunkSizeThresholdBytes :: int64
  mm_aborted :: bool
  mm_nextPhase :: DefragmentationPhaseEnum

definition kSmallChunkSizeThresholdPctg :: uint64 where
  "kSmallChunkSizeThresholdPctg = 25"

subsection \<open>Iterators\<close>

definition deref :: "ChunkRangeInfos \<Rightarrow> ChunkRangeInfoIterator \<Rightarrow> error + ChunkRangeInfo" where
  "deref chunks it =
     (case map_of chunks it of None \<Rightarrow> Inl InvalidIterator | Some c \<Rightarrow> Inr c)"

definition updateChunk ::
  "ChunkRangeInfoIterator \<Rightarrow> (ChunkRangeInfo \<Rightarrow> ChunkRangeInfo) \<Rightarrow> ChunkRangeInfos
     \<Rightarrow> ChunkRangeInfos" where
  "updateChunk it f chunks = map (\<lambda>kc. if fst kc = it then (fst kc, f (snd kc)) else kc) chunks"

definition eraseChunk :: "ChunkRangeInfoIterator \<Rightarrow> ChunkRangeInfos \<Rightarrow> ChunkRangeInfos" where
  "eraseChunk it chunks = filter (\<lambda>kc. fst kc \<noteq> it) chunks"

text \<open>\<^verbatim>\<open>std::next(it)\<close> when it is not \<^verbatim>\<open>end()\<close>, and \<^verbatim>\<open>std::prev(it)\<close> when \<^verbatim>\<open>it\<close> is
  not \<^verbatim>\<open>begin()\<close>.\<close>

fun nextIt :: "ChunkRangeInfos \<Rightarrow> ChunkRangeInfoIterator
    \<Rightarrow> (ChunkRangeInfoIterator \<times> ChunkRangeInfo) option" where
  "nextIt [] it = None"
| "nextIt [x] it = None"
| "nextIt (x # y # xs) it = (if fst x = it then Some y else nextIt (y # xs) it)"

fun prevIt :: "ChunkRangeInfos \<Rightarrow> ChunkRangeInfoIterator
    \<Rightarrow> (ChunkRangeInfoIterator \<times> ChunkRangeInfo) option" where
  "prevIt [] it = None"
| "prevIt [x] it = None"
| "prevIt (x # y # xs) it = (if fst y = it then Some x else prevIt (y # xs) it)"

text \<open>\<^verbatim>\<open>std::list::sort\<close> with \<^verbatim>\<open>compareChunkRangeInfoIterators\<close>: a stable sort by
  increasing size, sizes read as signed. The comparison reads through every iterator of
  a list of two or more.\<close>

definition sizeOfIterator :: "ChunkRangeInfos \<Rightarrow> ChunkRangeInfoIterator \<Rightarrow> int" where
  "sizeOfIterator chunks it =
     (case map_of chunks it of None \<Rightarrow> 0 | Some c \<Rightarrow> sint (cri_estimatedSizeBytes c))"

definition sortSmallChunks ::
  "ChunkRangeInfos \<Rightarrow> ChunkRangeInfoIterator list \<Rightarrow> error + ChunkRangeInfoIterator list" where
  "sortSmallChunks chunks l =
     (if 2 \<le> length l \<and> (\<exists>it \<in> set l. map_of chunks it = None) then Inl InvalidIterator
      else Inr (sort_key (sizeOfIterator chunks) l))"

text \<open>The sort of \<^verbatim>\<open>_shardProcessingOrder\<close> by decreasing current size. Its comparison
  is \<^verbatim>\<open>>=\<close>, so C++ leaves the order of shards of equal size open; here they come out
  in the reverse of their former order. \<^verbatim>\<open>_shardInfos.at\<close> throws for an unknown shard.\<close>

definition currentSizeOfShard :: "(ShardId \<times> ShardInfo) list \<Rightarrow> ShardId \<Rightarrow> nat" where
  "currentSizeOfShard infos s =
     (case map_of infos s of None \<Rightarrow> 0 | Some i \<Rightarrow> unat (currentSizeBytes i))"

definition sortShardProcessingOrder ::
  "(ShardId \<times> ShardInfo) list \<Rightarrow> ShardId list \<Rightarrow> error + ShardId list" where
  "sortShardProcessingOrder infos order =
     (if 2 \<le> length order \<and> (\<exists>s \<in> set order. map_of infos s = None) then Inl OutOfRange
      else Inr (rev (sort_key (currentSizeOfShard infos) order)))"

subsection \<open>Construction\<close>

definition mm_abort ::
  "DefragmentationPhaseEnum \<Rightarrow> MoveAndMergeChunksPhase \<Rightarrow> MoveAndMergeChunksPhase" where
  "mm_abort nextPhase p =
     p\<lparr>mm_aborted := True, mm_nextPhase := nextPhase, mm_actionableMerges := [],
       mm_smallChunksByShard := [], mm_shardProcessingOrder := []\<rparr>"

text \<open>Loading the routing table stops at the first chunk without an estimated size; the
  chunks loaded until then stay in the list.\<close>

fun loadChunks :: "ChunkType list \<Rightarrow> nat \<Rightarrow> ChunkRangeInfos \<Rightarrow> ChunkRangeInfos \<times> bool" where
  "loadChunks [] n loaded = (loaded, True)"
| "loadChunks (chunk # rest) n loaded =
     (case ct_estimatedSizeBytes chunk of
        None \<Rightarrow> (loaded, False)
      | Some estimatedChunkSize \<Rightarrow>
          loadChunks rest (Suc n)
            (loaded @ [(n, \<lparr>cri_range = ct_range chunk, cri_shard = ct_shard chunk,
                             cri_estimatedSizeBytes = estimatedChunkSize,
                             cri_busyInOperation = False\<rparr>)]))"

fun indexSmallChunks ::
  "int64 \<Rightarrow> ChunkRangeInfos \<Rightarrow> (ShardId \<times> ChunkRangeInfoIterator list) list
     \<Rightarrow> (ShardId \<times> ChunkRangeInfoIterator list) list" where
  "indexSmallChunks threshold [] small = small"
| "indexSmallChunks threshold (kc # rest) small =
     indexSmallChunks threshold rest
       (if cri_estimatedSizeBytes (snd kc) \<le>s threshold
        then map_index (cri_shard (snd kc)) [] (\<lambda>l. l @ [fst kc]) small
        else small)"

text \<open>\<^verbatim>\<open>emplace\<close> into \<^verbatim>\<open>shardInfos\<close> keeps the first entry of a shard.\<close>

fun collectShardInfos ::
  "ShardStatistics list \<Rightarrow> (ShardId \<times> ShardInfo) list \<Rightarrow> (ShardId \<times> ShardInfo) list" where
  "collectShardInfos [] infos = infos"
| "collectShardInfos (shardStat # rest) infos =
     collectShardInfos rest
       (if map_of infos (stat_shardId shardStat) = None
        then infos @ [(stat_shardId shardStat,
               \<lparr>currentSizeBytes = stat_currSizeBytes shardStat,
                maxSizeBytes = stat_maxSizeBytes shardStat,
                draining = stat_isDraining shardStat\<rparr>)]
        else infos)"

definition mm_construct ::
  "NamespaceString \<Rightarrow> UUID \<Rightarrow> ChunkType list \<Rightarrow> (ShardId \<times> ShardInfo) list \<Rightarrow> ZoneInfo
     \<Rightarrow> uint64 \<Rightarrow> MoveAndMergeChunksPhase" where
  "mm_construct nss uuid collectionChunks shardInfos collectionZones
       smallChunkSizeThresholdBytes =
     (let p0 = \<lparr>mm_nss = nss, mm_uuid = uuid, mm_collectionChunks = [],
                 mm_smallChunksByShard = [], mm_shardInfos = shardInfos,
                 mm_shardProcessingOrder = [], mm_outstandingMigrations = [],
                 mm_actionableMerges = [], mm_outstandingMerges = [],
                 mm_zoneInfo = collectionZones,
                 mm_smallChunkSizeThresholdBytes = smallChunkSizeThresholdBytes,
                 mm_aborted = False, mm_nextPhase = kSplitChunks\<rparr>;
          loaded = loadChunks collectionChunks 0 []
      in if \<not> snd loaded
         then mm_abort kMergeChunks (p0\<lparr>mm_collectionChunks := fst loaded\<rparr>)
         else p0\<lparr>mm_collectionChunks := fst loaded,
                mm_smallChunksByShard :=
                  map (\<lambda>entry. (fst entry, sort_key (sizeOfIterator (fst loaded)) (snd entry)))
                    (indexSmallChunks smallChunkSizeThresholdBytes (fst loaded) []),
                mm_shardProcessingOrder :=
                  rev (sort_key (currentSizeOfShard shardInfos) (map fst shardInfos))\<rparr>)"

definition smallChunkSizeThreshold :: "uint64 \<Rightarrow> uint64" where
  "smallChunkSizeThreshold maxChunkSizeBytes =
     (maxChunkSizeBytes div 100) * kSmallChunkSizeThresholdPctg"

definition mm_build ::
  "Catalog \<Rightarrow> CollectionType \<Rightarrow> ShardStatistics list \<Rightarrow> error + MoveAndMergeChunksPhase" where
  "mm_build cat coll collectionShardStats =
     (case cat_getZones cat coll of
        None \<Rightarrow> Inl DBException
      | Some collectionZones \<Rightarrow>
          (let shardInfos = collectShardInfos collectionShardStats []
           in case getCollectionChunks cat coll of
                Inl e \<Rightarrow> Inl e
              | Inr collectionChunks \<Rightarrow>
                  (case getCollectionMaxChunkSizeBytes cat coll of
                     Inl e \<Rightarrow> Inl e
                   | Inr maxChunkSizeBytes \<Rightarrow>
                       Inr (mm_construct (coll_nss coll) (coll_uuid coll) collectionChunks
                              shardInfos collectionZones
                              (smallChunkSizeThreshold maxChunkSizeBytes)))))"

definition mm_getType :: "MoveAndMergeChunksPhase \<Rightarrow> DefragmentationPhaseEnum" where
  "mm_getType p = kMoveAndMergeChunks"

definition mm_getNextPhase :: "MoveAndMergeChunksPhase \<Rightarrow> DefragmentationPhaseEnum" where
  "mm_getNextPhase p = mm_nextPhase p"

definition mm_isComplete :: "MoveAndMergeChunksPhase \<Rightarrow> bool" where
  "mm_isComplete p \<longleftrightarrow>
     mm_smallChunksByShard p = [] \<and> mm_outstandingMigrations p = []
     \<and> mm_actionableMerges p = [] \<and> mm_outstandingMerges p = []"

subsection \<open>Move-and-merge requests\<close>

text \<open>The constructor of \<^verbatim>\<open>MoveAndMergeRequest\<close> reads both chunks to find out on which
  side the chunk to merge with lies.\<close>

definition makeRequest ::
  "ChunkRangeInfoIterator \<times> ChunkRangeInfo \<Rightarrow> ChunkRangeInfoIterator \<times> ChunkRangeInfo
     \<Rightarrow> MoveAndMergeRequest" where
  "makeRequest toMove toMergeWith =
     \<lparr>chunkToMove = fst toMove, chunkToMergeWith = fst toMergeWith,
      isChunkToMergeLeftSibling =
        (woCompare (getMax (cri_range (snd toMergeWith))) (getMin (cri_range (snd toMove))) = 0)\<rparr>"

definition asMigrateInfo ::
  "UUID \<Rightarrow> NamespaceString \<Rightarrow> ChunkVersion \<Rightarrow> ChunkRangeInfo \<Rightarrow> ChunkRangeInfo \<Rightarrow> MigrateInfo" where
  "asMigrateInfo collUuid nss version toMove toMergeWith =
     \<lparr>mig_nss = nss, mig_uuid = collUuid, mig_to = cri_shard toMergeWith,
      mig_from = cri_shard toMove, mig_minKey = getMin (cri_range toMove),
      mig_maxKey = getMax (cri_range toMove), mig_version = version\<rparr>"

definition asMergedRange :: "MoveAndMergeRequest \<Rightarrow> ChunkRangeInfo \<Rightarrow> ChunkRangeInfo \<Rightarrow> ChunkRange" where
  "asMergedRange request toMove toMergeWith =
     \<lparr>getMin = (if isChunkToMergeLeftSibling request then getMin (cri_range toMergeWith)
                else getMin (cri_range toMove)),
      getMax = (if isChunkToMergeLeftSibling request then getMax (cri_range toMove)
                else getMax (cri_range toMergeWith))\<rparr>"

definition asMergeInfo ::
  "UUID \<Rightarrow> NamespaceString \<Rightarrow> ChunkVersion \<Rightarrow> MoveAndMergeRequest \<Rightarrow> ChunkRangeInfo
     \<Rightarrow> ChunkRangeInfo \<Rightarrow> MergeInfo" where
  "asMergeInfo collUuid nss version request toMove toMergeWith =
     \<lparr>mi_shardId = cri_shard toMergeWith, mi_nss = nss, mi_uuid = collUuid,
      mi_collectionVersion = version,
      mi_chunkRange = asMergedRange request toMove toMergeWith\<rparr>"

subsection \<open>Choosing the next migration\<close>

definition canBeMoveAndMerged ::
  "MoveAndMergeChunksPhase \<Rightarrow> ChunkRangeInfo \<Rightarrow> ChunkRangeInfo \<Rightarrow> error + bool" where
  "canBeMoveAndMerged p chunk sibling =
     (let onSameZone = (mm_zoneInfo p (cri_range chunk) = mm_zoneInfo p (cri_range sibling))
      in if cri_shard chunk = cri_shard sibling then Inr onSameZone
         else case map_of (mm_shardInfos p) (cri_shard sibling) of
                None \<Rightarrow> Inl OutOfRange
              | Some info \<Rightarrow> Inr (onSameZone \<and> canReceiveNewChunks info))"

definition getChunkSiblings ::
  "MoveAndMergeChunksPhase \<Rightarrow> ChunkRangeInfoIterator \<Rightarrow> ChunkRangeInfo
     \<Rightarrow> error + (ChunkRangeInfoIterator \<times> ChunkRangeInfo) list" where
  "getChunkSiblings p chunkIt chunk =
     (case (case nextIt (mm_collectionChunks p) chunkIt of
              None \<Rightarrow> Inr []
            | Some rightSibling \<Rightarrow>
                (case canBeMoveAndMerged p chunk (snd rightSibling) of
                   Inl e \<Rightarrow> Inl e
                 | Inr ok \<Rightarrow> Inr (if ok then [rightSibling] else []))) of
        Inl e \<Rightarrow> Inl e
      | Inr siblings \<Rightarrow>
          (case prevIt (mm_collectionChunks p) chunkIt of
             None \<Rightarrow> Inr siblings
           | Some leftSibling \<Rightarrow>
               (case canBeMoveAndMerged p chunk (snd leftSibling) of
                  Inl e \<Rightarrow> Inl e
                | Inr ok \<Rightarrow> Inr (if ok then siblings @ [leftSibling] else siblings))))"

text \<open>
  The loop of \<^verbatim>\<open>_findNextSmallChunkInShard\<close> over the small chunks of one shard. The
  result is the list as the loop leaves it (candidates without any mergeable sibling
  are erased on the way) and, when a candidate has a free sibling, the candidate with
  its free siblings.
\<close>

type_synonym SmallChunkChoice =
  "(ChunkRangeInfoIterator \<times> ChunkRangeInfo) \<times> (ChunkRangeInfoIterator \<times> ChunkRangeInfo) list"

fun scanSmallChunks ::
  "MoveAndMergeChunksPhase \<Rightarrow> ShardId set \<Rightarrow> ChunkRangeInfoIterator list
     \<Rightarrow> error + (ChunkRangeInfoIterator list \<times> SmallChunkChoice option)" where
  "scanSmallChunks p usedShards [] = Inr ([], None)"
| "scanSmallChunks p usedShards (candidateIt # rest) =
     (case deref (mm_collectionChunks p) candidateIt of
        Inl e \<Rightarrow> Inl e
      | Inr candidate \<Rightarrow>
          if cri_busyInOperation candidate
          then (case scanSmallChunks p usedShards rest of
                  Inl e \<Rightarrow> Inl e
                | Inr r \<Rightarrow> Inr (candidateIt # fst r, snd r))
          else
            (case getChunkSiblings p candidateIt candidate of
               Inl e \<Rightarrow> Inl e
             | Inr candidateSiblings \<Rightarrow>
                 if candidateSiblings = [] then scanSmallChunks p usedShards rest
                 else
                   let smallChunkSiblings =
                         filter (\<lambda>sibling. \<not> cri_busyInOperation (snd sibling)
                                    \<and> cri_shard (snd sibling) \<notin> usedShards)
                           candidateSiblings
                   in if smallChunkSiblings \<noteq> []
                      then Inr (candidateIt # rest,
                                Some ((candidateIt, candidate), smallChunkSiblings))
                      else (case scanSmallChunks p usedShards rest of
                              Inl e \<Rightarrow> Inl e
                            | Inr r \<Rightarrow> Inr (candidateIt # fst r, snd r))))"

definition findNextSmallChunkInShard ::
  "ShardId \<Rightarrow> ShardId set \<Rightarrow> MoveAndMergeChunksPhase
     \<Rightarrow> error + (MoveAndMergeChunksPhase \<times> SmallChunkChoice option)" where
  "findNextSmallChunkInShard shard usedShards p =
     (case map_of (mm_smallChunksByShard p) shard of
        None \<Rightarrow> Inr (p, None)
      | Some smallChunksInShard \<Rightarrow>
          (case scanSmallChunks p usedShards smallChunksInShard of
             Inl e \<Rightarrow> Inl e
           | Inr r \<Rightarrow>
               (case snd r of
                  Some choice \<Rightarrow>
                    Inr (p\<lparr>mm_smallChunksByShard :=
                              map_put shard (fst r) (mm_smallChunksByShard p)\<rparr>, Some choice)
                | None \<Rightarrow>
                    Inr (p\<lparr>mm_smallChunksByShard :=
                              (if fst r = [] then map_erase shard (mm_smallChunksByShard p)
                               else map_put shard (fst r) (mm_smallChunksByShard p))\<rparr>,
                         None))))"

definition rankMergeableSibling ::
  "MoveAndMergeChunksPhase \<Rightarrow> ChunkRangeInfo \<Rightarrow> ChunkRangeInfo \<Rightarrow> uint32" where
  "rankMergeableSibling p chunkTobeMovedAndMerged mergeableSibling =
     (let kNoMoveRequired = push_bit 4 (1 :: uint32);
          kConvenientMove = push_bit 3 (1 :: uint32);
          kMergeSolvesTwoPendingChunks = push_bit 2 (1 :: uint32);
          kMergeSolvesOnePendingChunk = push_bit 1 (1 :: uint32);
          ranking0 = (0 :: uint32);
          ranking1 =
            (if cri_shard chunkTobeMovedAndMerged = cri_shard mergeableSibling
             then ranking0 + kNoMoveRequired
             else if cri_estimatedSizeBytes chunkTobeMovedAndMerged
                       <s cri_estimatedSizeBytes mergeableSibling
             then ranking0 + kConvenientMove
             else ranking0);
          estimatedMergedSize =
            cri_estimatedSizeBytes chunkTobeMovedAndMerged
              + cri_estimatedSizeBytes mergeableSibling
      in if mm_smallChunkSizeThresholdBytes p <s estimatedMergedSize
         then ranking1 +
                (if cri_estimatedSizeBytes mergeableSibling <s mm_smallChunkSizeThresholdBytes p
                 then kMergeSolvesTwoPendingChunks
                 else kMergeSolvesOnePendingChunk)
         else ranking1)"

text \<open>The choice among the candidate siblings in \<^verbatim>\<open>popNextMigration\<close>: the front of the
  list unless the back is another sibling that ranks higher, or ranks the same on a shard
  with less data.\<close>

definition chooseTargetSibling ::
  "MoveAndMergeChunksPhase \<Rightarrow> ChunkRangeInfo
     \<Rightarrow> (ChunkRangeInfoIterator \<times> ChunkRangeInfo) list
     \<Rightarrow> error + (ChunkRangeInfoIterator \<times> ChunkRangeInfo)" where
  "chooseTargetSibling p nextSmallChunk candidateSiblings =
     (if 2 < length candidateSiblings then Inl InvariantFailure
      else if candidateSiblings = [] then Inl InvalidIterator
      else
        let targetSibling = hd candidateSiblings;
            challenger = last candidateSiblings
        in if fst targetSibling \<noteq> fst challenger
           then
             let targetScore = rankMergeableSibling p nextSmallChunk (snd targetSibling);
                 challengerScore = rankMergeableSibling p nextSmallChunk (snd challenger)
             in if challengerScore > targetScore then Inr challenger
                else if challengerScore = targetScore
                then (case map_of (mm_shardInfos p) (cri_shard (snd challenger)) of
                        None \<Rightarrow> Inl OutOfRange
                      | Some challengerShard \<Rightarrow>
                          (case map_of (mm_shardInfos p) (cri_shard (snd targetSibling)) of
                             None \<Rightarrow> Inl OutOfRange
                           | Some targetShard \<Rightarrow>
                               Inr (if currentSizeBytes challengerShard
                                         < currentSizeBytes targetShard
                                    then challenger else targetSibling)))
                else Inr targetSibling
           else Inr targetSibling)"

text \<open>
  \<^verbatim>\<open>popNextMigration\<close>, as a walk along \<^verbatim>\<open>_shardProcessingOrder\<close>. The result is what
  the call returns or throws, the set of used shards and the phase as the call leaves
  them. A \<^verbatim>\<open>DBException\<close> can only come from \<^verbatim>\<open>getShardVersion\<close>, after the two chunks
  have been marked busy and their shards used; any other failure ends the process and
  leaves the state of its last completed step.
\<close>

fun popNextMigrationFrom ::
  "Catalog \<Rightarrow> ShardId list \<Rightarrow> ShardId set \<Rightarrow> MoveAndMergeChunksPhase
     \<Rightarrow> (error + MigrateInfo option) \<times> ShardId set \<times> MoveAndMergeChunksPhase" where
  "popNextMigrationFrom cat [] usedShards p = (Inr None, usedShards, p)"
| "popNextMigrationFrom cat (shardId # rest) usedShards p =
     (if shardId \<in> usedShards then popNextMigrationFrom cat rest usedShards p
      else
        case findNextSmallChunkInShard shardId usedShards p of
          Inl e \<Rightarrow> (Inl e, usedShards, p)
        | Inr found \<Rightarrow>
            (case snd found of
               None \<Rightarrow> popNextMigrationFrom cat rest usedShards (fst found)
             | Some choice \<Rightarrow>
                 (case chooseTargetSibling (fst found) (snd (fst choice)) (snd choice) of
                    Inl e \<Rightarrow> (Inl e, usedShards, fst found)
                  | Inr targetSibling \<Rightarrow>
                      let nextSmallChunk = fst choice;
                          p1 = (fst found)\<lparr>mm_collectionChunks :=
                                 updateChunk (fst targetSibling)
                                   (\<lambda>c. c\<lparr>cri_busyInOperation := True\<rparr>)
                                   (updateChunk (fst nextSmallChunk)
                                      (\<lambda>c. c\<lparr>cri_busyInOperation := True\<rparr>)
                                      (mm_collectionChunks (fst found)))\<rparr>;
                          usedShards1 = insert (cri_shard (snd targetSibling))
                                          (insert (cri_shard (snd nextSmallChunk)) usedShards)
                      in case getShardVersion cat (cri_shard (snd nextSmallChunk)) (mm_uuid p1) of
                           Inl e \<Rightarrow> (Inl e, usedShards1, p1)
                         | Inr smallChunkVersion \<Rightarrow>
                             (Inr (Some (asMigrateInfo (mm_uuid p1) (mm_nss p1) smallChunkVersion
                                           (snd nextSmallChunk) (snd targetSibling))),
                              usedShards1,
                              p1\<lparr>mm_outstandingMigrations := mm_outstandingMigrations p1 @
                                    [makeRequest nextSmallChunk targetSibling]\<rparr>))))"

definition mm_popNextMigration ::
  "Catalog \<Rightarrow> ShardId set \<Rightarrow> MoveAndMergeChunksPhase
     \<Rightarrow> (error + MigrateInfo option) \<times> ShardId set \<times> MoveAndMergeChunksPhase" where
  "mm_popNextMigration cat usedShards p =
     popNextMigrationFrom cat (mm_shardProcessingOrder p) usedShards p"

subsection \<open>Handing out merges\<close>

text \<open>\<^verbatim>\<open>popNextStreamableAction\<close> moves the front of \<^verbatim>\<open>_actionableMerges\<close> to
  \<^verbatim>\<open>_outstandingMerges\<close> before it reads the shard version, so a failure of that read
  leaves the request moved.\<close>

definition mm_popNextStreamableAction ::
  "Catalog \<Rightarrow> MoveAndMergeChunksPhase
     \<Rightarrow> (error + DefragmentationAction option) \<times> MoveAndMergeChunksPhase" where
  "mm_popNextStreamableAction cat p =
     (case mm_actionableMerges p of
        [] \<Rightarrow> (Inr None, p)
      | nextRequest # remaining \<Rightarrow>
          let p1 = p\<lparr>mm_outstandingMerges := mm_outstandingMerges p @ [nextRequest],
                     mm_actionableMerges := remaining\<rparr>
          in case deref (mm_collectionChunks p1) (chunkToMergeWith nextRequest) of
               Inl e \<Rightarrow> (Inl e, p1)
             | Inr toMergeWith \<Rightarrow>
                 (case getShardVersion cat (cri_shard toMergeWith) (mm_uuid p1) of
                    Inl e \<Rightarrow> (Inl e, p1)
                  | Inr version \<Rightarrow>
                      (case deref (mm_collectionChunks p1) (chunkToMove nextRequest) of
                         Inl e \<Rightarrow> (Inl e, p1)
                       | Inr toMove \<Rightarrow>
                           (Inr (Some (Merge (asMergeInfo (mm_uuid p1) (mm_nss p1) version
                                                nextRequest toMove toMergeWith))), p1))))"

subsection \<open>Applying the result of an action\<close>

text \<open>\<^verbatim>\<open>std::find_if\<close> over a list of requests, with the matching request taken out. The
  test reads the chunk to move of every request it visits.\<close>

fun findRequest ::
  "(ChunkRangeInfo \<Rightarrow> bool) \<Rightarrow> ChunkRangeInfos \<Rightarrow> MoveAndMergeRequest list
     \<Rightarrow> error + (MoveAndMergeRequest \<times> MoveAndMergeRequest list) option" where
  "findRequest matches chunks [] = Inr None"
| "findRequest matches chunks (request # rest) =
     (case deref chunks (chunkToMove request) of
        Inl e \<Rightarrow> Inl e
      | Inr toMove \<Rightarrow>
          if matches toMove then Inr (Some (request, rest))
          else (case findRequest matches chunks rest of
                  Inl e \<Rightarrow> Inl e
                | Inr None \<Rightarrow> Inr None
                | Inr (Some found) \<Rightarrow> Inr (Some (fst found, request # snd found))))"

definition removeIteratorFromSmallChunks ::
  "ChunkRangeInfoIterator \<Rightarrow> ShardId \<Rightarrow> (ShardId \<times> ChunkRangeInfoIterator list) list
     \<Rightarrow> (ShardId \<times> ChunkRangeInfoIterator list) list" where
  "removeIteratorFromSmallChunks chunkIt parentShard small =
     (case map_of small parentShard of
        None \<Rightarrow> small
      | Some smallChunksInShard \<Rightarrow>
          if chunkIt \<notin> set smallChunksInShard then small
          else if remove1 chunkIt smallChunksInShard = [] then map_erase parentShard small
          else map_put parentShard (remove1 chunkIt smallChunksInShard) small)"

definition adjustCurrentSize ::
  "ShardId \<Rightarrow> (uint64 \<Rightarrow> uint64) \<Rightarrow> (ShardId \<times> ShardInfo) list \<Rightarrow> (ShardId \<times> ShardInfo) list" where
  "adjustCurrentSize shard f infos =
     map (\<lambda>entry. if fst entry = shard
                   then (fst entry, (snd entry)\<lparr>currentSizeBytes := f (currentSizeBytes (snd entry))\<rparr>)
                   else entry) infos"

text \<open>The three callbacks of a migration result. Each yields the phase it leaves, or the
  failure that ends the process.\<close>

definition mm_onMigrationSuccess ::
  "MoveAndMergeRequest \<Rightarrow> MoveAndMergeChunksPhase \<Rightarrow> error + MoveAndMergeChunksPhase" where
  "mm_onMigrationSuccess moveRequest p =
     (case deref (mm_collectionChunks p) (chunkToMove moveRequest) of
        Inl e \<Rightarrow> Inl e
      | Inr toMove \<Rightarrow>
          let transferredAmount = cri_estimatedSizeBytes toMove
          in if map_of (mm_shardInfos p) (cri_shard toMove) = None then Inl OutOfRange
             else
               let infos1 = adjustCurrentSize (cri_shard toMove)
                               (\<lambda>cur. cur - transferredAmount) (mm_shardInfos p)
               in case deref (mm_collectionChunks p) (chunkToMergeWith moveRequest) of
                    Inl e \<Rightarrow> Inl e
                  | Inr toMergeWith \<Rightarrow>
                      if map_of infos1 (cri_shard toMergeWith) = None then Inl OutOfRange
                      else
                        let infos2 = adjustCurrentSize (cri_shard toMergeWith)
                                        (\<lambda>cur. cur + transferredAmount) infos1
                        in case sortShardProcessingOrder infos2 (mm_shardProcessingOrder p) of
                             Inl e \<Rightarrow> Inl e
                           | Inr order \<Rightarrow>
                               Inr (p\<lparr>mm_shardInfos := infos2,
                                      mm_shardProcessingOrder := order,
                                      mm_actionableMerges :=
                                        mm_actionableMerges p @ [moveRequest]\<rparr>))"

definition mm_onMigrationRetriableError ::
  "MoveAndMergeRequest \<Rightarrow> MoveAndMergeChunksPhase \<Rightarrow> error + MoveAndMergeChunksPhase" where
  "mm_onMigrationRetriableError moveRequest p =
     (if map_of (mm_collectionChunks p) (chunkToMove moveRequest) = None
         \<or> map_of (mm_collectionChunks p) (chunkToMergeWith moveRequest) = None
      then Inl InvalidIterator
      else Inr (p\<lparr>mm_collectionChunks :=
                    updateChunk (chunkToMergeWith moveRequest)
                      (\<lambda>c. c\<lparr>cri_busyInOperation := False\<rparr>)
                      (updateChunk (chunkToMove moveRequest)
                         (\<lambda>c. c\<lparr>cri_busyInOperation := False\<rparr>)
                         (mm_collectionChunks p))\<rparr>))"

definition mm_applyMigrationResult ::
  "MigrateInfo \<Rightarrow> Status \<Rightarrow> MoveAndMergeChunksPhase
     \<Rightarrow> error option \<times> MoveAndMergeChunksPhase" where
  "mm_applyMigrationResult migrationAction migrationResponse p =
     (case findRequest (\<lambda>toMove. woCompare (mig_minKey migrationAction)
                                   (getMin (cri_range toMove)) = 0)
             (mm_collectionChunks p) (mm_outstandingMigrations p) of
        Inl e \<Rightarrow> (Some e, p)
      | Inr None \<Rightarrow> (Some InvariantFailure, p)
      | Inr (Some found) \<Rightarrow>
          let moveRequest = fst found;
              p1 = p\<lparr>mm_outstandingMigrations := snd found\<rparr>
          in if mm_aborted p1 then (None, p1)
             else case handleActionResult migrationResponse
                         (mm_onMigrationSuccess moveRequest p1)
                         (mm_onMigrationRetriableError moveRequest p1)
                         (Inr (mm_abort kMergeChunks p1)) of
                    Inl e \<Rightarrow> (Some e, p1)
                  | Inr p2 \<Rightarrow> (None, p2))"

definition mm_onMergeSuccess ::
  "MoveAndMergeRequest \<Rightarrow> MoveAndMergeChunksPhase \<Rightarrow> error + MoveAndMergeChunksPhase" where
  "mm_onMergeSuccess mergeRequest p =
     (case deref (mm_collectionChunks p) (chunkToMergeWith mergeRequest) of
        Inl e \<Rightarrow> Inl e
      | Inr mergedChunk \<Rightarrow>
          (case deref (mm_collectionChunks p) (chunkToMove mergeRequest) of
             Inl e \<Rightarrow> Inl e
           | Inr chunkToDelete \<Rightarrow>
               let chunks1 = updateChunk (chunkToMergeWith mergeRequest)
                     (\<lambda>c. c\<lparr>cri_range := asMergedRange mergeRequest chunkToDelete mergedChunk,
                            cri_estimatedSizeBytes :=
                              cri_estimatedSizeBytes c + cri_estimatedSizeBytes chunkToDelete,
                            cri_busyInOperation := False\<rparr>)
                     (mm_collectionChunks p);
                   deletedChunkShard = cri_shard chunkToDelete;
                   chunks2 = eraseChunk (chunkToMove mergeRequest) chunks1;
                   small1 = removeIteratorFromSmallChunks (chunkToMove mergeRequest)
                              deletedChunkShard (mm_smallChunksByShard p)
               in case deref chunks2 (chunkToMergeWith mergeRequest) of
                    Inl e \<Rightarrow> Inl e
                  | Inr merged \<Rightarrow>
                      if mm_smallChunkSizeThresholdBytes p <s cri_estimatedSizeBytes merged
                      then Inr (p\<lparr>mm_collectionChunks := chunks2,
                                  mm_smallChunksByShard :=
                                    removeIteratorFromSmallChunks (chunkToMergeWith mergeRequest)
                                      (cri_shard merged) small1\<rparr>)
                      else
                        (case map_of small1 (cri_shard merged) of
                           None \<Rightarrow> Inr (p\<lparr>mm_collectionChunks := chunks2,
                                           mm_smallChunksByShard := small1\<rparr>)
                         | Some smallChunksInRecipient \<Rightarrow>
                             (case sortSmallChunks chunks2 smallChunksInRecipient of
                                Inl e \<Rightarrow> Inl e
                              | Inr sortedChunks \<Rightarrow>
                                  Inr (p\<lparr>mm_collectionChunks := chunks2,
                                         mm_smallChunksByShard :=
                                           map_put (cri_shard merged) sortedChunks small1\<rparr>)))))"

definition mm_applyMergeResult ::
  "MergeInfo \<Rightarrow> Status \<Rightarrow> MoveAndMergeChunksPhase
     \<Rightarrow> error option \<times> MoveAndMergeChunksPhase" where
  "mm_applyMergeResult mergeAction mergeResponse p =
     (case findRequest (\<lambda>toMove. containsKey (mi_chunkRange mergeAction)
                                   (getMin (cri_range toMove)))
             (mm_collectionChunks p) (mm_outstandingMerges p) of
        Inl e \<Rightarrow> (Some e, p)
      | Inr None \<Rightarrow> (Some InvariantFailure, p)
      | Inr (Some found) \<Rightarrow>
          let mergeRequest = fst found;
              p1 = p\<lparr>mm_outstandingMerges := snd found\<rparr>
          in if mm_aborted p1 then (None, p1)
             else case handleActionResult mergeResponse
                         (mm_onMergeSuccess mergeRequest p1)
                         (Inr (p1\<lparr>mm_actionableMerges :=
                                    mm_actionableMerges p1 @ [mergeRequest]\<rparr>))
                         (Inr (mm_abort kMergeChunks p1)) of
                    Inl e \<Rightarrow> (Some e, p1)
                  | Inr p2 \<Rightarrow> (None, p2))"

text \<open>\<^verbatim>\<open>applyActionResult\<close>: the exception thrown, if any, and the phase left. After an
  \<^verbatim>\<open>InvariantFailure\<close>, \<^verbatim>\<open>OutOfRange\<close> or \<^verbatim>\<open>InvalidIterator\<close> the process is gone
  and the phase returned has no meaning.\<close>

definition mm_applyActionResult ::
  "DefragmentationAction \<Rightarrow> DefragmentationActionResponse \<Rightarrow> MoveAndMergeChunksPhase
     \<Rightarrow> error option \<times> MoveAndMergeChunksPhase" where
  "mm_applyActionResult action response p =
     (case action of
        Migrate migrationAction \<Rightarrow>
          (case response of
             StatusResponse migrationResponse \<Rightarrow>
               mm_applyMigrationResult migrationAction migrationResponse p
           | _ \<Rightarrow> (Some BadVariantAccess, p))
      | Merge mergeAction \<Rightarrow>
          (case response of
             StatusResponse mergeResponse \<Rightarrow> mm_applyMergeResult mergeAction mergeResponse p
           | _ \<Rightarrow> (Some BadVariantAccess, p))
      | _ \<Rightarrow> (Some DBException, p))"

section \<open>The policy\<close>

text \<open>The three phases behind the common interface \<^verbatim>\<open>DefragmentationPhase\<close>.\<close>

datatype DefragmentationPhase =
    MergeChunks MergeChunksPhase
  | MoveAndMergeChunks MoveAndMergeChunksPhase
  | SplitChunks SplitChunksPhase

fun getType :: "DefragmentationPhase \<Rightarrow> DefragmentationPhaseEnum" where
  "getType (MergeChunks p) = mc_getType p"
| "getType (MoveAndMergeChunks p) = mm_getType p"
| "getType (SplitChunks p) = sc_getType p"

fun getNextPhase :: "DefragmentationPhase \<Rightarrow> DefragmentationPhaseEnum" where
  "getNextPhase (MergeChunks p) = mc_getNextPhase p"
| "getNextPhase (MoveAndMergeChunks p) = mm_getNextPhase p"
| "getNextPhase (SplitChunks p) = sc_getNextPhase p"

fun isComplete :: "DefragmentationPhase \<Rightarrow> bool" where
  "isComplete (MergeChunks p) = mc_isComplete p"
| "isComplete (MoveAndMergeChunks p) = mm_isComplete p"
| "isComplete (SplitChunks p) = sc_isComplete p"

fun popNextStreamableAction ::
  "Catalog \<Rightarrow> DefragmentationPhase
     \<Rightarrow> (error + DefragmentationAction option) \<times> DefragmentationPhase" where
  "popNextStreamableAction cat (MergeChunks p) =
     (case mc_popNextStreamableAction cat p of
        Inl e \<Rightarrow> (Inl e, MergeChunks p)
      | Inr r \<Rightarrow> (Inr (fst r), MergeChunks (snd r)))"
| "popNextStreamableAction cat (MoveAndMergeChunks p) =
     (case mm_popNextStreamableAction cat p of
        (r, p') \<Rightarrow> (r, MoveAndMergeChunks p'))"
| "popNextStreamableAction cat (SplitChunks p) =
     (case sc_popNextStreamableAction cat p of
        Inl e \<Rightarrow> (Inl e, SplitChunks p)
      | Inr r \<Rightarrow> (Inr (fst r), SplitChunks (snd r)))"

fun popNextMigration ::
  "Catalog \<Rightarrow> ShardId set \<Rightarrow> DefragmentationPhase
     \<Rightarrow> (error + MigrateInfo option) \<times> ShardId set \<times> DefragmentationPhase" where
  "popNextMigration cat usedShards (MergeChunks p) =
     (Inr (mc_popNextMigration usedShards p), usedShards, MergeChunks p)"
| "popNextMigration cat usedShards (MoveAndMergeChunks p) =
     (case mm_popNextMigration cat usedShards p of
        (r, usedShards', p') \<Rightarrow> (r, usedShards', MoveAndMergeChunks p'))"
| "popNextMigration cat usedShards (SplitChunks p) =
     (Inr (sc_popNextMigration usedShards p), usedShards, SplitChunks p)"

fun applyActionResult ::
  "int32 \<Rightarrow> Catalog \<Rightarrow> DefragmentationAction \<Rightarrow> DefragmentationActionResponse
     \<Rightarrow> DefragmentationPhase \<Rightarrow> error option \<times> DefragmentationPhase" where
  "applyActionResult BSONObjMaxUserSize cat action response (MergeChunks p) =
     (case mc_applyActionResult cat action response p of
        (thrown, p') \<Rightarrow> (thrown, MergeChunks p'))"
| "applyActionResult BSONObjMaxUserSize cat action response (MoveAndMergeChunks p) =
     (case mm_applyActionResult action response p of
        (thrown, p') \<Rightarrow> (thrown, MoveAndMergeChunks p'))"
| "applyActionResult BSONObjMaxUserSize cat action response (SplitChunks p) =
     (case sc_applyActionResult BSONObjMaxUserSize action response p of
        (thrown, p') \<Rightarrow> (thrown, SplitChunks p'))"

text \<open>
  The members of \<^verbatim>\<open>BalancerDefragmentationPolicyImpl\<close> are declared in its header,
  outside the sources at hand. Modelled from the spec: the map from collection to current
  phase (its order of iteration is the order of the list), the integer count of
  streaming operations, the single slot of a parked consumer (\<open>True\<close> while a promise is
  pending) and the flag of a closed stream. \<^verbatim>\<open>kMaxConcurrentOperations\<close> is a parameter.
\<close>

record BalancerDefragmentationPolicyImpl =
  defragmentationStates :: "(UUID \<times> DefragmentationPhase) list"
  concurrentStreamingOps :: int
  nextStreamingActionPromise :: bool
  streamClosed :: bool

datatype 'a Future = Ready 'a | Pending

subsection \<open>Phase transitions\<close>

text \<open>\<^verbatim>\<open>_transitionPhases\<close> catches every \<^verbatim>\<open>DBException\<close> of the persistence and of the
  builders, and then returns the null phase, as it does for \<open>kFinished\<close>.\<close>

definition transitionPhases ::
  "Catalog \<Rightarrow> CollectionType \<Rightarrow> DefragmentationPhaseEnum \<Rightarrow> bool
     \<Rightarrow> DefragmentationPhase option" where
  "transitionPhases cat coll nextPhase shouldPersistPhase =
     (if shouldPersistPhase \<and> \<not> cat_persistPhaseUpdate cat nextPhase (coll_uuid coll) then None
      else case nextPhase of
          kMergeChunks \<Rightarrow>
            (case mc_build cat coll of Inl e \<Rightarrow> None | Inr p \<Rightarrow> Some (MergeChunks p))
        | kMoveAndMergeChunks \<Rightarrow>
            (case cat_getCollStats cat (coll_nss coll) of
               None \<Rightarrow> None
             | Some collectionShardStats \<Rightarrow>
                 (case mm_build cat coll collectionShardStats of
                    Inl e \<Rightarrow> None
                  | Inr p \<Rightarrow> Some (MoveAndMergeChunks p)))
        | kSplitChunks \<Rightarrow>
            (case sc_build cat coll of Inl e \<Rightarrow> None | Inr p \<Rightarrow> Some (SplitChunks p))
        | kFinished \<Rightarrow>
            (if cat_clearDataSizeInformation cat (coll_uuid coll) then None else None))"

text \<open>The loop \<^verbatim>\<open>while (currentPhaseCompleted())\<close>. Nothing in the code bounds it: it
  ends when a phase that is not complete, or the null phase, comes up.\<close>

partial_function (option) transitionWhileComplete ::
  "Catalog \<Rightarrow> CollectionType \<Rightarrow> DefragmentationPhase option
     \<Rightarrow> DefragmentationPhase option option" where
  "transitionWhileComplete cat coll currentPhase =
     (case currentPhase of
        None \<Rightarrow> Some None
      | Some phase \<Rightarrow>
          if isComplete phase
          then transitionWhileComplete cat coll
                 (transitionPhases cat coll (getNextPhase phase) True)
          else Some (Some phase))"

definition refreshDefragmentationPhaseFor ::
  "Catalog \<Rightarrow> UUID \<Rightarrow> DefragmentationPhase
     \<Rightarrow> (error + DefragmentationPhase option) option" where
  "refreshDefragmentationPhaseFor cat collUuid currentPhase =
     (if \<not> isComplete currentPhase then Some (Inr (Some currentPhase))
      else case cat_getCollection cat collUuid of
             None \<Rightarrow> Some (Inl DBException)
           | Some coll \<Rightarrow>
               map_option Inr (transitionWhileComplete cat coll (Some currentPhase)))"

subsection \<open>Streaming actions\<close>

text \<open>
  The loop of \<^verbatim>\<open>_nextStreamingAction\<close> over the collections: \<open>kept\<close> are the entries
  already visited and still in the map, the list is what remains to visit. A collection
  whose refresh or whose phase throws a \<^verbatim>\<open>DBException\<close>, or whose phase has become null,
  is erased. The result is \<open>None\<close> when a refresh does not end.
\<close>

fun nextStreamingActionFrom ::
  "Catalog \<Rightarrow> (UUID \<times> DefragmentationPhase) list \<Rightarrow> (UUID \<times> DefragmentationPhase) list
     \<Rightarrow> ((error + DefragmentationAction option) \<times> (UUID \<times> DefragmentationPhase) list) option" where
  "nextStreamingActionFrom cat kept [] = Some (Inr None, kept)"
| "nextStreamingActionFrom cat kept (entry # rest) =
     (case refreshDefragmentationPhaseFor cat (fst entry) (snd entry) of
        None \<Rightarrow> None
      | Some (Inl e) \<Rightarrow> nextStreamingActionFrom cat kept rest
      | Some (Inr None) \<Rightarrow> nextStreamingActionFrom cat kept rest
      | Some (Inr (Some phase)) \<Rightarrow>
          (case popNextStreamableAction cat phase of
             (Inr (Some nextAction), phase') \<Rightarrow>
               Some (Inr (Some nextAction), kept @ (fst entry, phase') # rest)
           | (Inr None, phase') \<Rightarrow>
               nextStreamingActionFrom cat (kept @ [(fst entry, phase')]) rest
           | (Inl e, phase') \<Rightarrow>
               if e = DBException then nextStreamingActionFrom cat kept rest
               else Some (Inl e, kept @ (fst entry, phase') # rest)))"

text \<open>
  The end of \<^verbatim>\<open>_nextStreamingAction\<close> assigns \<^verbatim>\<open>boost::optional<EndOfActionStream>()\<close> to
  the result when the stream is closed. That expression is a default-constructed
  optional, which holds no value, and the converting assignment of an optional without a
  value leaves the target without a value.
\<close>

definition defaultConstructedOptional :: "unit option" where
  "defaultConstructedOptional = None"

definition convertOptional :: "unit option \<Rightarrow> DefragmentationAction option" where
  "convertOptional source = map_option (\<lambda>u. EndOfActionStream) source"

definition nextStreamingAction ::
  "Catalog \<Rightarrow> BalancerDefragmentationPolicyImpl
     \<Rightarrow> ((error + DefragmentationAction option) \<times> BalancerDefragmentationPolicyImpl) option" where
  "nextStreamingAction cat s =
     (case nextStreamingActionFrom cat [] (defragmentationStates s) of
        None \<Rightarrow> None
      | Some (Inl e, states) \<Rightarrow> Some (Inl e, s\<lparr>defragmentationStates := states\<rparr>)
      | Some (Inr (Some nextAction), states) \<Rightarrow>
          Some (Inr (Some nextAction), s\<lparr>defragmentationStates := states\<rparr>)
      | Some (Inr None, states) \<Rightarrow>
          Some (Inr (if streamClosed s then convertOptional defaultConstructedOptional
                     else None),
                s\<lparr>defragmentationStates := states\<rparr>))"

definition getNextStreamingAction ::
  "int \<Rightarrow> Catalog \<Rightarrow> BalancerDefragmentationPolicyImpl
     \<Rightarrow> ((error + DefragmentationAction Future) \<times> BalancerDefragmentationPolicyImpl) option" where
  "getNextStreamingAction kMaxConcurrentOperations cat s =
     (if concurrentStreamingOps s < kMaxConcurrentOperations
      then (case nextStreamingAction cat s of
              None \<Rightarrow> None
            | Some (Inl e, s1) \<Rightarrow> Some (Inl e, s1)
            | Some (Inr (Some action), s1) \<Rightarrow>
                Some (Inr (Ready action),
                      s1\<lparr>concurrentStreamingOps := concurrentStreamingOps s1 + 1\<rparr>)
            | Some (Inr None, s1) \<Rightarrow>
                Some (Inr Pending, s1\<lparr>nextStreamingActionPromise := True\<rparr>))
      else Some (Inr Pending, s\<lparr>nextStreamingActionPromise := True\<rparr>))"

text \<open>\<^verbatim>\<open>closeActionStream\<close>: with the new state, the value a parked consumer receives.\<close>

definition closeActionStream ::
  "BalancerDefragmentationPolicyImpl
     \<Rightarrow> DefragmentationAction option \<times> BalancerDefragmentationPolicyImpl" where
  "closeActionStream s =
     ((if nextStreamingActionPromise s then Some EndOfActionStream else None),
      s\<lparr>defragmentationStates := [], nextStreamingActionPromise := False,
        streamClosed := True\<rparr>)"

subsection \<open>Acknowledgments\<close>

text \<open>The results below are: what the call throws, if anything; the action handed to the
  parked consumer, if any; the state left.\<close>

definition processEndOfAction ::
  "Catalog \<Rightarrow> BalancerDefragmentationPolicyImpl
     \<Rightarrow> (error option \<times> DefragmentationAction option \<times> BalancerDefragmentationPolicyImpl) option" where
  "processEndOfAction cat s =
     (if nextStreamingActionPromise s
      then (case nextStreamingAction cat s of
              None \<Rightarrow> None
            | Some (Inl e, s1) \<Rightarrow> Some (Some e, None, s1)
            | Some (Inr (Some nextAction), s1) \<Rightarrow>
                Some (None, Some nextAction, s1\<lparr>nextStreamingActionPromise := False\<rparr>)
            | Some (Inr None, s1) \<Rightarrow>
                Some (None, None, s1\<lparr>concurrentStreamingOps := concurrentStreamingOps s1 - 1\<rparr>))
      else Some (None, None, s\<lparr>concurrentStreamingOps := concurrentStreamingOps s - 1\<rparr>))"

definition setPhase ::
  "UUID \<Rightarrow> DefragmentationPhase \<Rightarrow> (UUID \<times> DefragmentationPhase) list
     \<Rightarrow> (UUID \<times> DefragmentationPhase) list" where
  "setPhase uuid phase states =
     map (\<lambda>entry. if fst entry = uuid then (uuid, phase) else entry) states"

definition acknowledgeResult ::
  "int32 \<Rightarrow> Catalog \<Rightarrow> UUID \<Rightarrow> DefragmentationAction \<Rightarrow> DefragmentationActionResponse
     \<Rightarrow> BalancerDefragmentationPolicyImpl
     \<Rightarrow> (error option \<times> DefragmentationAction option \<times> BalancerDefragmentationPolicyImpl) option" where
  "acknowledgeResult BSONObjMaxUserSize cat uuid action response s =
     (case map_of (defragmentationStates s) uuid of
        None \<Rightarrow> Some (None, None, s)
      | Some phase \<Rightarrow>
          (case applyActionResult BSONObjMaxUserSize cat action response phase of
             (Some e, phase') \<Rightarrow>
               Some (Some e, None,
                     s\<lparr>defragmentationStates := setPhase uuid phase' (defragmentationStates s)\<rparr>)
           | (None, phase') \<Rightarrow>
               processEndOfAction cat
                 (s\<lparr>defragmentationStates := setPhase uuid phase' (defragmentationStates s)\<rparr>)))"

definition acknowledgeMergeResult ::
  "int32 \<Rightarrow> Catalog \<Rightarrow> MergeInfo \<Rightarrow> Status \<Rightarrow> BalancerDefragmentationPolicyImpl
     \<Rightarrow> (error option \<times> DefragmentationAction option \<times> BalancerDefragmentationPolicyImpl) option" where
  "acknowledgeMergeResult BSONObjMaxUserSize cat action result s =
     acknowledgeResult BSONObjMaxUserSize cat (mi_uuid action) (Merge action)
       (StatusResponse result) s"

definition acknowledgeDataSizeResult ::
  "int32 \<Rightarrow> Catalog \<Rightarrow> DataSizeInfo \<Rightarrow> DataSizeResponse StatusWith
     \<Rightarrow> BalancerDefragmentationPolicyImpl
     \<Rightarrow> (error option \<times> DefragmentationAction option \<times> BalancerDefragmentationPolicyImpl) option" where
  "acknowledgeDataSizeResult BSONObjMaxUserSize cat action result s =
     acknowledgeResult BSONObjMaxUserSize cat (ds_uuid action) (DataSize action)
       (DataSizeStatus result) s"

definition acknowledgeAutoSplitVectorResult ::
  "int32 \<Rightarrow> Catalog \<Rightarrow> AutoSplitVectorInfo \<Rightarrow> SplitPoints StatusWith
     \<Rightarrow> BalancerDefragmentationPolicyImpl
     \<Rightarrow> (error option \<times> DefragmentationAction option \<times> BalancerDefragmentationPolicyImpl) option" where
  "acknowledgeAutoSplitVectorResult BSONObjMaxUserSize cat action result s =
     acknowledgeResult BSONObjMaxUserSize cat (asv_uuid action) (AutoSplitVector action)
       (SplitPointsStatus result) s"

definition acknowledgeSplitResult ::
  "int32 \<Rightarrow> Catalog \<Rightarrow> SplitInfoWithKeyPattern \<Rightarrow> Status \<Rightarrow> BalancerDefragmentationPolicyImpl
     \<Rightarrow> (error option \<times> DefragmentationAction option \<times> BalancerDefragmentationPolicyImpl) option" where
  "acknowledgeSplitResult BSONObjMaxUserSize cat action result s =
     acknowledgeResult BSONObjMaxUserSize cat (si_uuid action) (Split action)
       (StatusResponse result) s"

definition acknowledgeMoveResult ::
  "int32 \<Rightarrow> Catalog \<Rightarrow> MigrateInfo \<Rightarrow> Status \<Rightarrow> BalancerDefragmentationPolicyImpl
     \<Rightarrow> (error option \<times> DefragmentationAction option \<times> BalancerDefragmentationPolicyImpl) option" where
  "acknowledgeMoveResult BSONObjMaxUserSize cat action result s =
     acknowledgeResult BSONObjMaxUserSize cat (mig_uuid action) (Migrate action)
       (StatusResponse result) s"

subsection \<open>Selecting chunks to move\<close>

text \<open>
  One pass of the \<^verbatim>\<open>for\<close> loop of \<^verbatim>\<open>selectChunksToMove\<close> over the collections, and the
  \<^verbatim>\<open>while (!done)\<close> loop around it. The result of the call is what it throws, if anything
  (only a failure that is not a \<^verbatim>\<open>DBException\<close> gets out), the map, the used shards
  and the migrations.
\<close>

fun selectChunksPass ::
  "Catalog \<Rightarrow> (UUID \<times> DefragmentationPhase) list \<Rightarrow> (UUID \<times> DefragmentationPhase) list
     \<Rightarrow> ShardId set \<Rightarrow> MigrateInfo list
     \<Rightarrow> (error option \<times> (UUID \<times> DefragmentationPhase) list \<times> ShardId set \<times> MigrateInfo list) option" where
  "selectChunksPass cat kept [] usedShards chunksToMove =
     Some (None, kept, usedShards, chunksToMove)"
| "selectChunksPass cat kept (entry # rest) usedShards chunksToMove =
     (case refreshDefragmentationPhaseFor cat (fst entry) (snd entry) of
        None \<Rightarrow> None
      | Some (Inl e) \<Rightarrow> selectChunksPass cat kept rest usedShards chunksToMove
      | Some (Inr None) \<Rightarrow> selectChunksPass cat kept rest usedShards chunksToMove
      | Some (Inr (Some phase)) \<Rightarrow>
          (case popNextMigration cat usedShards phase of
             (Inr (Some actionableMigration), usedShards', phase') \<Rightarrow>
               selectChunksPass cat (kept @ [(fst entry, phase')]) rest usedShards'
                 (chunksToMove @ [actionableMigration])
           | (Inr None, usedShards', phase') \<Rightarrow>
               selectChunksPass cat (kept @ [(fst entry, phase')]) rest usedShards' chunksToMove
           | (Inl e, usedShards', phase') \<Rightarrow>
               if e = DBException
               then selectChunksPass cat kept rest usedShards' chunksToMove
               else Some (Some e, kept @ (fst entry, phase') # rest, usedShards',
                          chunksToMove)))"

partial_function (option) selectChunksLoop ::
  "Catalog \<Rightarrow> (UUID \<times> DefragmentationPhase) list \<Rightarrow> ShardId set \<Rightarrow> MigrateInfo list
     \<Rightarrow> (error option \<times> (UUID \<times> DefragmentationPhase) list \<times> ShardId set \<times> MigrateInfo list) option" where
  "selectChunksLoop cat states usedShards chunksToMove =
     (case selectChunksPass cat [] states usedShards chunksToMove of
        None \<Rightarrow> None
      | Some r \<Rightarrow>
          if fst r \<noteq> None then Some r
          else if length (snd (snd (snd r))) = length chunksToMove then Some r
          else selectChunksLoop cat (fst (snd r)) (fst (snd (snd r))) (snd (snd (snd r))))"

definition selectChunksToMove ::
  "Catalog \<Rightarrow> ShardId set \<Rightarrow> BalancerDefragmentationPolicyImpl
     \<Rightarrow> (error option \<times> MigrateInfo list \<times> ShardId set \<times> BalancerDefragmentationPolicyImpl) option" where
  "selectChunksToMove cat usedShards s =
     (case selectChunksLoop cat (defragmentationStates s) usedShards [] of
        None \<Rightarrow> None
      | Some r \<Rightarrow>
          Some (fst r, snd (snd (snd r)), fst (snd (snd r)),
                s\<lparr>defragmentationStates := fst (snd r)\<rparr>))"

section \<open>Sequences of calls on a move-and-merge phase\<close>

text \<open>
  The policy reaches a phase through three entry points: \<^verbatim>\<open>popNextMigration\<close> (from
  \<^verbatim>\<open>selectChunksToMove\<close>), \<^verbatim>\<open>popNextStreamableAction\<close> (from \<^verbatim>\<open>_nextStreamingAction\<close>)
  and \<^verbatim>\<open>applyActionResult\<close> (from the \<^verbatim>\<open>acknowledge...Result\<close> functions). A run of a
  phase is a list of such calls, each with the catalog as it is at the time of the call.
  Each call is observed through the request it concerns: the request appended to
  \<^verbatim>\<open>_outstandingMigrations\<close> when a migration is returned, the request appended to
  \<^verbatim>\<open>_outstandingMerges\<close> when a merge is returned, and the request matched in
  \<^verbatim>\<open>_outstandingMigrations\<close> when a migration is acknowledged with an OK status and the
  success handler has run.

  A \<^verbatim>\<open>DBException\<close> leaves the run going on the phase as the throwing call left it (the
  policy drops the phase in some of these cases, which only removes runs); any other
  failure ends the process, and the run with it.
\<close>

datatype PhaseCall =
    PopNextMigration "ShardId set"
  | PopNextStreamableAction
  | ApplyActionResult DefragmentationAction DefragmentationActionResponse

datatype PhaseEvent =
    MigrationRequested MoveAndMergeRequest
  | MigrationSucceeded MoveAndMergeRequest
  | MergeEmitted MoveAndMergeRequest
  | NoEvent

definition migrationSucceeded ::
  "DefragmentationAction \<Rightarrow> DefragmentationActionResponse \<Rightarrow> MoveAndMergeChunksPhase
     \<Rightarrow> MoveAndMergeRequest option" where
  "migrationSucceeded action response p =
     (case action of
        Migrate migrationAction \<Rightarrow>
          (case findRequest (\<lambda>toMove. woCompare (mig_minKey migrationAction)
                                        (getMin (cri_range toMove)) = 0)
                  (mm_collectionChunks p) (mm_outstandingMigrations p) of
             Inr (Some found) \<Rightarrow>
               if \<not> mm_aborted p \<and> response = StatusResponse OK then Some (fst found)
               else None
           | _ \<Rightarrow> None)
      | _ \<Rightarrow> None)"

definition mm_call ::
  "Catalog \<Rightarrow> PhaseCall \<Rightarrow> MoveAndMergeChunksPhase
     \<Rightarrow> PhaseEvent \<times> error option \<times> MoveAndMergeChunksPhase" where
  "mm_call cat call p =
     (case call of
        PopNextMigration usedShards \<Rightarrow>
          (case mm_popNextMigration cat usedShards p of
             (Inl e, used, q) \<Rightarrow> (NoEvent, Some e, q)
           | (Inr None, used, q) \<Rightarrow> (NoEvent, None, q)
           | (Inr (Some migration), used, q) \<Rightarrow>
               (MigrationRequested (last (mm_outstandingMigrations q)), None, q))
      | PopNextStreamableAction \<Rightarrow>
          (case mm_popNextStreamableAction cat p of
             (Inl e, q) \<Rightarrow> (NoEvent, Some e, q)
           | (Inr None, q) \<Rightarrow> (NoEvent, None, q)
           | (Inr (Some action), q) \<Rightarrow>
               (MergeEmitted (last (mm_outstandingMerges q)), None, q))
      | ApplyActionResult action response \<Rightarrow>
          (case mm_applyActionResult action response p of
             (Some e, q) \<Rightarrow> (NoEvent, Some e, q)
           | (None, q) \<Rightarrow>
               (case migrationSucceeded action response p of
                  Some request \<Rightarrow> (MigrationSucceeded request, None, q)
                | None \<Rightarrow> (NoEvent, None, q))))"

fun mm_run ::
  "MoveAndMergeChunksPhase \<Rightarrow> (Catalog \<times> PhaseCall) list
     \<Rightarrow> PhaseEvent list \<times> MoveAndMergeChunksPhase option" where
  "mm_run p [] = ([], Some p)"
| "mm_run p (step # rest) =
     (case mm_call (fst step) (snd step) p of
        (event, failure, q) \<Rightarrow>
          if failure \<noteq> None \<and> failure \<noteq> Some DBException then ([event], None)
          else (event # fst (mm_run q rest), snd (mm_run q rest)))"

section \<open>The ranking as the specification writes it\<close>

text \<open>Modelled from the spec: the rank of a sibling as section 4.2 writes it, on the sizes
  as integers.\<close>

definition rank_spec :: "bool \<Rightarrow> int \<Rightarrow> int \<Rightarrow> int \<Rightarrow> nat" where
  "rank_spec sameShard candSize sibSize smallThreshold =
     (if sameShard then 16 else 0)
   + (if \<not> sameShard \<and> candSize < sibSize then 8 else 0)
   + (if candSize + sibSize > smallThreshold
      then (if sibSize < smallThreshold then 4 else 2) else 0)"


text \<open>Modelled from the spec: the union of two chunk ranges, from the smaller minimum to
  the larger maximum.\<close>

definition unionRange :: "ChunkRange \<Rightarrow> ChunkRange \<Rightarrow> ChunkRange" where
  "unionRange a b =
     \<lparr>getMin = (if woCompare (getMin a) (getMin b) \<le> 0 then getMin a else getMin b),
      getMax = (if woCompare (getMax b) (getMax a) \<le> 0 then getMax a else getMax b)\<rparr>"
section \<open>Properties of the state of a move-and-merge phase\<close>

text \<open>The index of small chunks is sound when no list holds an iterator twice and every
  iterator of the list of a shard designates a chunk of the collection owned by that
  shard.\<close>

definition smallIndexSound ::
  "(ShardId \<times> ChunkRangeInfoIterator list) list \<Rightarrow> ChunkRangeInfos \<Rightarrow> bool" where
  "smallIndexSound small chunks \<longleftrightarrow>
     (\<forall>s l. map_of small s = Some l \<longrightarrow>
        distinct l \<and> (\<forall>it \<in> set l. \<exists>c. map_of chunks it = Some c \<and> cri_shard c = s))"

text \<open>The two chunks of a request are siblings: both ranges are not empty, one ends where
  the other starts, and the request recorded on which side the chunk to merge with is, as
  its constructor does.\<close>

definition siblingRequest ::
  "MoveAndMergeRequest \<Rightarrow> ChunkRangeInfo \<Rightarrow> ChunkRangeInfo \<Rightarrow> bool" where
  "siblingRequest request toMove toMergeWith \<longleftrightarrow>
     woCompare (getMin (cri_range toMove)) (getMax (cri_range toMove)) < 0
   \<and> woCompare (getMin (cri_range toMergeWith)) (getMax (cri_range toMergeWith)) < 0
   \<and> (woCompare (getMax (cri_range toMergeWith)) (getMin (cri_range toMove)) = 0
      \<or> woCompare (getMax (cri_range toMove)) (getMin (cri_range toMergeWith)) = 0)
   \<and> isChunkToMergeLeftSibling request
       = (woCompare (getMax (cri_range toMergeWith)) (getMin (cri_range toMove)) = 0)"

text \<open>What a successful merge writes into the chunk that survives.\<close>

definition mergedChunkUpdate ::
  "MoveAndMergeRequest \<Rightarrow> ChunkRangeInfo \<Rightarrow> ChunkRangeInfo \<Rightarrow> ChunkRangeInfo \<Rightarrow> ChunkRangeInfo" where
  "mergedChunkUpdate r toMove toMergeWith c =
     c\<lparr>cri_range := asMergedRange r toMove toMergeWith,
       cri_estimatedSizeBytes := cri_estimatedSizeBytes c + cri_estimatedSizeBytes toMove,
       cri_busyInOperation := False\<rparr>"

section \<open>Properties of the state of the policy\<close>

text \<open>A phase has work available when the loop of \<^verbatim>\<open>_nextStreamingAction\<close> over the
  collections comes back with an action.\<close>

definition workAvailable :: "Catalog \<Rightarrow> BalancerDefragmentationPolicyImpl \<Rightarrow> bool" where
  "workAvailable cat s =
     (case nextStreamingActionFrom cat [] (defragmentationStates s) of
        Some (Inr (Some nextAction), states) \<Rightarrow> True
      | _ \<Rightarrow> False)"

section \<open>Properties of the requests of a move-and-merge phase\<close>

text \<open>The chunks a request refers to, and the requests a phase holds in its three
  lists.\<close>

definition refs :: "MoveAndMergeRequest \<Rightarrow> ChunkRangeInfoIterator set" where
  "refs request = {chunkToMove request, chunkToMergeWith request}"

definition allRequests :: "MoveAndMergeChunksPhase \<Rightarrow> MoveAndMergeRequest list" where
  "allRequests p = mm_outstandingMigrations p @ mm_actionableMerges p @ mm_outstandingMerges p"

text \<open>The chunk list holds no iterator twice; no request is held twice; the chunks of
  every request held are in the chunk list and busy; two requests held share no chunk.\<close>

definition requestsInv :: "MoveAndMergeChunksPhase \<Rightarrow> bool" where
  "requestsInv p \<longleftrightarrow>
     distinct (map fst (mm_collectionChunks p))
   \<and> distinct (allRequests p)
   \<and> (\<forall>r \<in> set (allRequests p). \<forall>it \<in> refs r.
         \<exists>c. map_of (mm_collectionChunks p) it = Some c \<and> cri_busyInOperation c)
   \<and> (\<forall>r \<in> set (allRequests p). \<forall>r' \<in> set (allRequests p).
         r \<noteq> r' \<longrightarrow> refs r \<inter> refs r' = {})"

text \<open>Reading a history of events from the latest to the earliest: the migration of the
  request has succeeded, and the request has not been made again since.\<close>

fun succeededLast :: "PhaseEvent list \<Rightarrow> MoveAndMergeRequest \<Rightarrow> bool" where
  "succeededLast [] request = False"
| "succeededLast (event # earlier) request =
     (if event = MigrationSucceeded request then True
      else if event = MigrationRequested request then False
      else succeededLast earlier request)"

text \<open>What \<^verbatim>\<open>popNextMigration\<close> does to the requests and to the chunks: the lists of merges
  stay; the chunk list keeps its iterators, and no chunk stops being busy; when a
  migration is returned, one request is appended to \<^verbatim>\<open>_outstandingMigrations\<close>, whose
  chunks were not busy and now are; otherwise \<^verbatim>\<open>_outstandingMigrations\<close> stays.\<close>

definition popEffect ::
  "MoveAndMergeChunksPhase \<Rightarrow> (error + MigrateInfo option) \<Rightarrow> MoveAndMergeChunksPhase \<Rightarrow> bool" where
  "popEffect p res q \<longleftrightarrow>
     mm_actionableMerges q = mm_actionableMerges p
   \<and> mm_outstandingMerges q = mm_outstandingMerges p
   \<and> map fst (mm_collectionChunks q) = map fst (mm_collectionChunks p)
   \<and> (\<forall>it c. map_of (mm_collectionChunks p) it = Some c
         \<longrightarrow> (\<exists>c'. map_of (mm_collectionChunks q) it = Some c'
                   \<and> (cri_busyInOperation c \<longrightarrow> cri_busyInOperation c')))
   \<and> (case res of
        Inr (Some m) \<Rightarrow>
          (\<exists>r'. mm_outstandingMigrations q = mm_outstandingMigrations p @ [r']
              \<and> (\<forall>it \<in> refs r'. \<exists>c. map_of (mm_collectionChunks p) it = Some c
                                     \<and> \<not> cri_busyInOperation c)
              \<and> (\<forall>it \<in> refs r'. \<exists>c. map_of (mm_collectionChunks q) it = Some c
                                     \<and> cri_busyInOperation c))
      | _ \<Rightarrow> mm_outstandingMigrations q = mm_outstandingMigrations p)"

text \<open>Along a list of events that follows a history (latest event first), every merge
  is emitted for a request whose migration has succeeded, and which has not been made
  again since. The history of a phase fits its state when this holds of every request in
  \<^verbatim>\<open>_actionableMerges\<close> and \<^verbatim>\<open>_outstandingMerges\<close>.\<close>

fun emittedInOrder :: "PhaseEvent list \<Rightarrow> PhaseEvent list \<Rightarrow> bool" where
  "emittedInOrder history [] = True"
| "emittedInOrder history (event # later) =
     ((case event of MergeEmitted request \<Rightarrow> succeededLast history request | _ \<Rightarrow> True)
      \<and> emittedInOrder (event # history) later)"

definition historyInv :: "PhaseEvent list \<Rightarrow> MoveAndMergeChunksPhase \<Rightarrow> bool" where
  "historyInv history p \<longleftrightarrow>
     requestsInv p
   \<and> (\<forall>r \<in> set (mm_actionableMerges p) \<union> set (mm_outstandingMerges p).
         succeededLast history r)"

section \<open>Shards and migrations in a call of \<^verbatim>\<open>selectChunksToMove\<close>\<close>

text \<open>The shards known to the policy for a collection: those that own a chunk in the
  chunk list of its move-and-merge phase, and those that own a chunk of the collection
  in the catalog, from which the next phases are built.\<close>

fun chunkShards :: "DefragmentationPhase \<Rightarrow> ShardId set" where
  "chunkShards (MoveAndMergeChunks p) = cri_shard ` snd ` set (mm_collectionChunks p)"
| "chunkShards (MergeChunks p) = {}"
| "chunkShards (SplitChunks p) = {}"

definition catalogShards :: "Catalog \<Rightarrow> UUID \<Rightarrow> ShardId set" where
  "catalogShards cat uuid =
     (case cat_getCollection cat uuid of
        None \<Rightarrow> {}
      | Some coll \<Rightarrow>
          (case cat_getChunks cat coll of None \<Rightarrow> {} | Some chunks \<Rightarrow> ct_shard ` set chunks))"

definition knownShards :: "Catalog \<Rightarrow> (UUID \<times> DefragmentationPhase) list \<Rightarrow> ShardId set" where
  "knownShards cat states =
     (\<Union>entry \<in> set states. chunkShards (snd entry) \<union> catalogShards cat (fst entry))"

fun phaseSound :: "DefragmentationPhase \<Rightarrow> bool" where
  "phaseSound (MoveAndMergeChunks p) =
     smallIndexSound (mm_smallChunksByShard p) (mm_collectionChunks p)"
| "phaseSound (MergeChunks p) = True"
| "phaseSound (SplitChunks p) = True"

text \<open>Every migration of the list has a source and a destination that are neither among
  the shards used before the list nor the source or destination of a migration before it
  in the list. The second predicate says it of the destinations only.\<close>

fun freshShards :: "ShardId set \<Rightarrow> MigrateInfo list \<Rightarrow> bool" where
  "freshShards usedShards [] = True"
| "freshShards usedShards (m # ms) =
     (mig_from m \<notin> usedShards \<and> mig_to m \<notin> usedShards
      \<and> freshShards (insert (mig_to m) (insert (mig_from m) usedShards)) ms)"

fun freshTargets :: "ShardId set \<Rightarrow> MigrateInfo list \<Rightarrow> bool" where
  "freshTargets usedShards [] = True"
| "freshTargets usedShards (m # ms) =
     (mig_to m \<notin> usedShards
      \<and> freshTargets (insert (mig_to m) (insert (mig_from m) usedShards)) ms)"

definition shardsOf :: "MigrateInfo list \<Rightarrow> ShardId set" where
  "shardsOf ms = mig_from ` set ms \<union> mig_to ` set ms"

text \<open>What \<^verbatim>\<open>popNextMigration\<close> of the move-and-merge phase does to the used shards:
  it only adds shards, and only shards that own a chunk of the phase; the chunks keep their
  shards and a sound index stays sound; the destination of a migration returned was not a
  used shard, and with a sound index neither was its source; both are used afterwards.\<close>

definition popShards ::
  "MoveAndMergeChunksPhase \<Rightarrow> ShardId set \<Rightarrow> (error + MigrateInfo option) \<Rightarrow> ShardId set
     \<Rightarrow> MoveAndMergeChunksPhase \<Rightarrow> bool" where
  "popShards p usedShards res usedShards' p' \<longleftrightarrow>
     usedShards \<subseteq> usedShards'
   \<and> usedShards' \<subseteq> usedShards \<union> cri_shard ` snd ` set (mm_collectionChunks p)
   \<and> cri_shard ` snd ` set (mm_collectionChunks p')
       \<subseteq> cri_shard ` snd ` set (mm_collectionChunks p)
   \<and> (smallIndexSound (mm_smallChunksByShard p) (mm_collectionChunks p)
        \<longrightarrow> smallIndexSound (mm_smallChunksByShard p') (mm_collectionChunks p'))
   \<and> (\<forall>m. res = Inr (Some m)
         \<longrightarrow> mig_to m \<notin> usedShards \<and> mig_to m \<in> usedShards' \<and> mig_from m \<in> usedShards'
             \<and> (smallIndexSound (mm_smallChunksByShard p) (mm_collectionChunks p)
                  \<longrightarrow> mig_from m \<notin> usedShards))"

text \<open>The same for \<^verbatim>\<open>popNextMigration\<close> of any phase.\<close>

definition phasePop ::
  "DefragmentationPhase \<Rightarrow> ShardId set \<Rightarrow> (error + MigrateInfo option) \<Rightarrow> ShardId set
     \<Rightarrow> DefragmentationPhase \<Rightarrow> bool" where
  "phasePop phase usedShards res usedShards' phase' \<longleftrightarrow>
     usedShards \<subseteq> usedShards'
   \<and> usedShards' \<subseteq> usedShards \<union> chunkShards phase
   \<and> chunkShards phase' \<subseteq> chunkShards phase
   \<and> (phaseSound phase \<longrightarrow> phaseSound phase')
   \<and> (\<forall>m. res = Inr (Some m)
         \<longrightarrow> mig_to m \<notin> usedShards \<and> mig_to m \<in> usedShards' \<and> mig_from m \<in> usedShards'
             \<and> (phaseSound phase \<longrightarrow> mig_from m \<notin> usedShards))"

text \<open>Every move-and-merge phase of the map has a sound index of small chunks.\<close>

definition statesSound :: "(UUID \<times> DefragmentationPhase) list \<Rightarrow> bool" where
  "statesSound states \<longleftrightarrow> (\<forall>entry \<in> set states. phaseSound (snd entry))"

text \<open>What one pass of \<^verbatim>\<open>selectChunksToMove\<close> over the collections, or a sequence of
  passes, leaves: the used shards have grown by shards known for the collections visited;
  the collections left have no new known shard; the migrations are the former ones followed
  by new ones, whose shards are now used and whose destinations were fresh (with sound
  indexes, whose sources were fresh, too); sound indexes stay sound.\<close>

definition passResult ::
  "Catalog \<Rightarrow> (UUID \<times> DefragmentationPhase) list \<Rightarrow> (UUID \<times> DefragmentationPhase) list
     \<Rightarrow> ShardId set \<Rightarrow> MigrateInfo list
     \<Rightarrow> error option \<times> (UUID \<times> DefragmentationPhase) list \<times> ShardId set \<times> MigrateInfo list
     \<Rightarrow> bool" where
  "passResult cat kept states usedShards ms r \<longleftrightarrow>
     usedShards \<subseteq> fst (snd (snd r))
   \<and> fst (snd (snd r)) \<subseteq> usedShards \<union> knownShards cat states
   \<and> knownShards cat (fst (snd r)) \<subseteq> knownShards cat kept \<union> knownShards cat states
   \<and> (\<exists>new. snd (snd (snd r)) = ms @ new \<and> shardsOf new \<subseteq> fst (snd (snd r))
              \<and> freshTargets usedShards new
              \<and> (statesSound states \<longrightarrow> freshShards usedShards new))
   \<and> (statesSound kept \<and> statesSound states \<longrightarrow> statesSound (fst (snd r)))"

section \<open>Sample data\<close>

text \<open>Concrete collections on which the theorems below are exercised.\<close>

definition keyAt :: "int \<Rightarrow> BSONObj" where
  "keyAt k = BSONObj k 16"

definition rangeOf :: "int \<Rightarrow> int \<Rightarrow> ChunkRange" where
  "rangeOf lo hi = \<lparr>getMin = keyAt lo, getMax = keyAt hi\<rparr>"

definition sampleVersion :: ChunkVersion where
  "sampleVersion = \<lparr>combined = 1, epoch = 1, timestamp = 1\<rparr>"

definition chunkOf :: "int \<Rightarrow> int \<Rightarrow> ShardId \<Rightarrow> int64 option \<Rightarrow> ChunkType" where
  "chunkOf lo hi shard sz =
     \<lparr>ct_collectionUUID = 7, ct_range = rangeOf lo hi, ct_version = Some sampleVersion,
      ct_shard = shard, ct_estimatedSizeBytes = sz\<rparr>"

definition sampleColl :: CollectionType where
  "sampleColl = \<lparr>coll_nss = ''db.coll'', coll_uuid = 7, coll_keyPattern = keyAt 1,
     coll_maxChunkSizeBytes = None, coll_defragmentCollection = True,
     coll_defragmentationPhase = None\<rparr>"

definition shardStats :: "ShardId \<Rightarrow> uint64 \<Rightarrow> uint64 \<Rightarrow> bool \<Rightarrow> ShardStatistics" where
  "shardStats s cur mx dr =
     \<lparr>stat_shardId = s, stat_currSizeBytes = cur, stat_maxSizeBytes = mx, stat_isDraining = dr\<rparr>"

definition sampleCatalog ::
  "ChunkType list \<Rightarrow> ShardStatistics list \<Rightarrow> uint64 \<Rightarrow> Catalog" where
  "sampleCatalog chunks stats maxChunkSize =
     \<lparr>cat_getCollection = (\<lambda>u. if u = 7 then Some sampleColl else None),
      cat_getChunks = (\<lambda>c. Some chunks),
      cat_getNewestChunkOfShard = (\<lambda>c s. Some (filter (\<lambda>ch. ct_shard ch = s) chunks)),
      cat_getZones = (\<lambda>c. Some (\<lambda>r. ''z'')),
      cat_balancerMaxChunkSizeBytes = Some maxChunkSize,
      cat_getCollStats = (\<lambda>n. Some stats),
      cat_setChunkEstimatedSize = (\<lambda>c n. True),
      cat_persistPhaseUpdate = (\<lambda>ph u. True),
      cat_clearDataSizeInformation = (\<lambda>u. True)\<rparr>"

text \<open>Scenario S1 of the specification: two adjacent chunks on shard A, one on B.\<close>

definition catalogS1 :: Catalog where
  "catalogS1 = sampleCatalog
     [chunkOf 0 10 ''A'' (Some 5), chunkOf 10 20 ''A'' (Some 5), chunkOf 20 30 ''B'' (Some 80)]
     [shardStats ''A'' 10 0 False, shardStats ''B'' 80 0 False] 100"

definition accessDenied :: ErrorCode where
  "accessDenied = OtherError False 13"

text \<open>The phase of scenario S1 after its only merge has been handed out.\<close>

definition phaseS1_mergeOutstanding :: MergeChunksPhase where
  "phaseS1_mergeOutstanding =
     \<lparr>mc_nss = ''db.coll'', mc_uuid = 7, mc_shardKey = keyAt 1,
      mc_pendingActionsByShards = [],
      mc_outstandingActions = 1, mc_aborted = False, mc_nextPhase = kMoveAndMergeChunks\<rparr>"

definition mergeS1 :: MergeInfo where
  "mergeS1 = \<lparr>mi_shardId = ''A'', mi_nss = ''db.coll'', mi_uuid = 7,
     mi_collectionVersion = sampleVersion, mi_chunkRange = rangeOf 0 20\<rparr>"

text \<open>A splitting phase whose only request for split points is under way, and a reply of
  1048320 keys of 16 bytes each: 16773120 bytes, which is 16 MB less 4096.\<close>

definition splitOutstanding :: SplitChunksPhase where
  "splitOutstanding =
     \<lparr>sc_nss = ''db.coll'', sc_uuid = 7, sc_shardKey = keyAt 1, sc_maxChunkSizeBytes = 100,
      sc_pendingActionsByShards = [], sc_outstandingActions = 1, sc_aborted = False,
      sc_nextPhase = kFinished\<rparr>"

definition autoSplitA :: AutoSplitVectorInfo where
  "autoSplitA = \<lparr>asv_shardId = ''A'', asv_nss = ''db.coll'', asv_uuid = 7,
     asv_collectionVersion = sampleVersion, asv_keyPattern = keyAt 1,
     asv_minKey = keyAt 0, asv_maxKey = keyAt 2000000, asv_maxChunkSizeBytes = 100\<rparr>"

definition manyKeys :: SplitPoints where
  "manyKeys = map (\<lambda>i. BSONObj (int i) 16) [1..<1048321]"

definition sixteenMB :: int32 where
  "sixteenMB = 16777216"

text \<open>Two small adjacent chunks on a draining shard, as the move-and-merge phase is built
  for them.\<close>

definition sameZone :: ZoneInfo where
  "sameZone = (\<lambda>r. ''z'')"

definition catalogDraining :: Catalog where
  "catalogDraining = sampleCatalog
     [chunkOf 0 10 ''A'' (Some 5), chunkOf 10 20 ''A'' (Some 5)]
     [shardStats ''A'' 10 0 True] 100"

definition smallChunk :: "int \<Rightarrow> int \<Rightarrow> ShardId \<Rightarrow> int64 \<Rightarrow> bool \<Rightarrow> ChunkRangeInfo" where
  "smallChunk lo hi shard sz busy =
     \<lparr>cri_range = rangeOf lo hi, cri_shard = shard, cri_estimatedSizeBytes = sz,
      cri_busyInOperation = busy\<rparr>"

definition phaseDraining :: MoveAndMergeChunksPhase where
  "phaseDraining =
     \<lparr>mm_nss = ''db.coll'', mm_uuid = 7,
      mm_collectionChunks = [(0, smallChunk 0 10 ''A'' 5 False), (1, smallChunk 10 20 ''A'' 5 False)],
      mm_smallChunksByShard = [(''A'', [0, 1])],
      mm_shardInfos = [(''A'', \<lparr>currentSizeBytes = 10, maxSizeBytes = 0, draining = True\<rparr>)],
      mm_shardProcessingOrder = [''A''], mm_outstandingMigrations = [],
      mm_actionableMerges = [], mm_outstandingMerges = [], mm_zoneInfo = (\<lambda>r. ''z''),
      mm_smallChunkSizeThresholdBytes = 25, mm_aborted = False,
      mm_nextPhase = kSplitChunks\<rparr>"

text \<open>A collection whose maximum chunk size is 103 bytes, and one with a small chunk
  between two larger chunks on other shards.\<close>

definition catalog103 :: Catalog where
  "catalog103 = sampleCatalog [chunkOf 0 10 ''A'' (Some 5)] [shardStats ''A'' 5 0 False] 103"

definition catalogThree :: Catalog where
  "catalogThree = sampleCatalog
     [chunkOf 0 10 ''A'' (Some 30), chunkOf 10 20 ''B'' (Some 5), chunkOf 20 30 ''C'' (Some 40)]
     [shardStats ''A'' 30 0 False, shardStats ''B'' 5 0 False, shardStats ''C'' 40 0 False] 100"

definition phaseThree :: MoveAndMergeChunksPhase where
  "phaseThree =
     \<lparr>mm_nss = ''db.coll'', mm_uuid = 7,
      mm_collectionChunks = [(0, smallChunk 0 10 ''A'' 30 False), (1, smallChunk 10 20 ''B'' 5 False),
                             (2, smallChunk 20 30 ''C'' 40 False)],
      mm_smallChunksByShard = [(''B'', [1])],
      mm_shardInfos = [(''A'', \<lparr>currentSizeBytes = 30, maxSizeBytes = 0, draining = False\<rparr>),
                       (''B'', \<lparr>currentSizeBytes = 5, maxSizeBytes = 0, draining = False\<rparr>),
                       (''C'', \<lparr>currentSizeBytes = 40, maxSizeBytes = 0, draining = False\<rparr>)],
      mm_shardProcessingOrder = [''C'', ''A'', ''B''], mm_outstandingMigrations = [],
      mm_actionableMerges = [], mm_outstandingMerges = [], mm_zoneInfo = (\<lambda>r. ''z''),
      mm_smallChunkSizeThresholdBytes = 25, mm_aborted = False,
      mm_nextPhase = kSplitChunks\<rparr>"

text \<open>A policy without collections (scenario S5, after the collection was withdrawn),
  and one action of each kind for collection 7.\<close>

definition policyIdle :: BalancerDefragmentationPolicyImpl where
  "policyIdle = \<lparr>defragmentationStates = [], concurrentStreamingOps = 1,
     nextStreamingActionPromise = False, streamClosed = False\<rparr>"

definition dataSizeS1 :: DataSizeInfo where
  "dataSizeS1 = \<lparr>ds_shardId = ''A'', ds_nss = ''db.coll'', ds_uuid = 7,
     ds_chunkRange = rangeOf 0 20, ds_version = sampleVersion, ds_keyPattern = keyAt 1,
     ds_estimatedValue = False\<rparr>"

definition splitA :: SplitInfoWithKeyPattern where
  "splitA = \<lparr>si_shardId = ''A'', si_nss = ''db.coll'', si_collectionVersion = sampleVersion,
     si_minKey = keyAt 0, si_maxKey = keyAt 2000000, si_splitKeys = [keyAt 30, keyAt 60],
     si_uuid = 7, si_keyPattern = keyAt 1\<rparr>"

definition migrateBA :: MigrateInfo where
  "migrateBA = \<lparr>mig_nss = ''db.coll'', mig_uuid = 7, mig_to = ''A'', mig_from = ''B'',
     mig_minKey = keyAt 10, mig_maxKey = keyAt 20, mig_version = sampleVersion\<rparr>"

text \<open>Two small chunks, each beside a large chunk on another shard, and the calls that
  bring both requests to their merge, then fail the first merge for good and acknowledge
  the second.\<close>

definition catalogFour :: Catalog where
  "catalogFour = sampleCatalog
     [chunkOf 0 10 ''A'' (Some 5), chunkOf 10 20 ''B'' (Some 80),
      chunkOf 20 30 ''C'' (Some 5), chunkOf 30 40 ''D'' (Some 80)]
     [shardStats ''A'' 5 0 False, shardStats ''B'' 80 0 False,
      shardStats ''C'' 5 0 False, shardStats ''D'' 80 0 False] 100"

definition migrateAB :: MigrateInfo where
  "migrateAB = \<lparr>mig_nss = ''db.coll'', mig_uuid = 7, mig_to = ''B'', mig_from = ''A'',
     mig_minKey = keyAt 0, mig_maxKey = keyAt 10, mig_version = sampleVersion\<rparr>"

definition migrateCD :: MigrateInfo where
  "migrateCD = \<lparr>mig_nss = ''db.coll'', mig_uuid = 7, mig_to = ''D'', mig_from = ''C'',
     mig_minKey = keyAt 20, mig_maxKey = keyAt 30, mig_version = sampleVersion\<rparr>"

definition mergeAB :: MergeInfo where
  "mergeAB = \<lparr>mi_shardId = ''B'', mi_nss = ''db.coll'', mi_uuid = 7,
     mi_collectionVersion = sampleVersion, mi_chunkRange = rangeOf 0 20\<rparr>"

definition mergeCD :: MergeInfo where
  "mergeCD = \<lparr>mi_shardId = ''D'', mi_nss = ''db.coll'', mi_uuid = 7,
     mi_collectionVersion = sampleVersion, mi_chunkRange = rangeOf 20 40\<rparr>"

definition callsUntilMerges :: "(Catalog \<times> PhaseCall) list" where
  "callsUntilMerges = map (Pair catalogFour)
     [PopNextMigration {}, PopNextMigration {},
      ApplyActionResult (Migrate migrateAB) (StatusResponse OK),
      ApplyActionResult (Migrate migrateCD) (StatusResponse OK),
      PopNextStreamableAction, PopNextStreamableAction]"

definition callsUntilAbort :: "(Catalog \<times> PhaseCall) list" where
  "callsUntilAbort = callsUntilMerges
     @ [(catalogFour, ApplyActionResult (Merge mergeAB) (StatusResponse (Error accessDenied)))]"

definition phaseFour :: MoveAndMergeChunksPhase where
  "phaseFour =
     \<lparr>mm_nss = ''db.coll'', mm_uuid = 7,
      mm_collectionChunks = [(0, smallChunk 0 10 ''A'' 5 False), (1, smallChunk 10 20 ''B'' 80 False),
                             (2, smallChunk 20 30 ''C'' 5 False), (3, smallChunk 30 40 ''D'' 80 False)],
      mm_smallChunksByShard = [(''A'', [0]), (''C'', [2])],
      mm_shardInfos = [(''A'', \<lparr>currentSizeBytes = 5, maxSizeBytes = 0, draining = False\<rparr>),
                       (''B'', \<lparr>currentSizeBytes = 80, maxSizeBytes = 0, draining = False\<rparr>),
                       (''C'', \<lparr>currentSizeBytes = 5, maxSizeBytes = 0, draining = False\<rparr>),
                       (''D'', \<lparr>currentSizeBytes = 80, maxSizeBytes = 0, draining = False\<rparr>)],
      mm_shardProcessingOrder = [''D'', ''B'', ''C'', ''A''], mm_outstandingMigrations = [],
      mm_actionableMerges = [], mm_outstandingMerges = [], mm_zoneInfo = (\<lambda>r. ''z''),
      mm_smallChunkSizeThresholdBytes = 25, mm_aborted = False,
      mm_nextPhase = kSplitChunks\<rparr>"

definition requestAB :: MoveAndMergeRequest where
  "requestAB = \<lparr>chunkToMove = 0, chunkToMergeWith = 1, isChunkToMergeLeftSibling = False\<rparr>"

definition requestCD :: MoveAndMergeRequest where
  "requestCD = \<lparr>chunkToMove = 2, chunkToMergeWith = 3, isChunkToMergeLeftSibling = False\<rparr>"

definition phaseFourMerging :: MoveAndMergeChunksPhase where
  "phaseFourMerging =
     phaseFour
       \<lparr>mm_collectionChunks := [(0, smallChunk 0 10 ''A'' 5 True), (1, smallChunk 10 20 ''B'' 80 True),
                               (2, smallChunk 20 30 ''C'' 5 True), (3, smallChunk 30 40 ''D'' 80 True)],
        mm_shardInfos := [(''A'', \<lparr>currentSizeBytes = 0, maxSizeBytes = 0, draining = False\<rparr>),
                         (''B'', \<lparr>currentSizeBytes = 85, maxSizeBytes = 0, draining = False\<rparr>),
                         (''C'', \<lparr>currentSizeBytes = 0, maxSizeBytes = 0, draining = False\<rparr>),
                         (''D'', \<lparr>currentSizeBytes = 85, maxSizeBytes = 0, draining = False\<rparr>)],
        mm_shardProcessingOrder := [''D'', ''B'', ''A'', ''C''],
        mm_outstandingMerges := [requestAB, requestCD]\<rparr>"

definition phaseFourAborted :: MoveAndMergeChunksPhase where
  "phaseFourAborted =
     phaseFourMerging
       \<lparr>mm_smallChunksByShard := [], mm_shardProcessingOrder := [],
        mm_outstandingMerges := [requestCD], mm_aborted := True,
        mm_nextPhase := kMergeChunks\<rparr>"

text \<open>A policy with fifty actions handed out and not yet acknowledged, then closed.\<close>

definition policyBusy :: BalancerDefragmentationPolicyImpl where
  "policyBusy = \<lparr>defragmentationStates = [], concurrentStreamingOps = 50,
     nextStreamingActionPromise = False, streamClosed = False\<rparr>"

definition policyBusyClosed :: BalancerDefragmentationPolicyImpl where
  "policyBusyClosed = snd (closeActionStream policyBusy)"

text \<open>A policy whose only collection is in the move-and-merge phase, with one merge
  handed out and one merge ready to be.\<close>

definition phaseFourActionable :: MoveAndMergeChunksPhase where
  "phaseFourActionable =
     phaseFourMerging\<lparr>mm_actionableMerges := [requestCD], mm_outstandingMerges := [requestAB]\<rparr>"

definition policyMerging :: BalancerDefragmentationPolicyImpl where
  "policyMerging = \<lparr>defragmentationStates = [(7, MoveAndMergeChunks phaseFourActionable)],
     concurrentStreamingOps = 1, nextStreamingActionPromise = False, streamClosed = False\<rparr>"

text \<open>A policy that has handed out nothing, and the same policy once its stream has been
  closed.\<close>

definition policyFresh :: BalancerDefragmentationPolicyImpl where
  "policyFresh = \<lparr>defragmentationStates = [], concurrentStreamingOps = 0,
     nextStreamingActionPromise = False, streamClosed = False\<rparr>"

definition policyClosed :: BalancerDefragmentationPolicyImpl where
  "policyClosed = snd (closeActionStream policyFresh)"

text \<open>A policy whose only collection is in the move-and-merge phase built for the four
  chunks.\<close>

definition policyFour :: BalancerDefragmentationPolicyImpl where
  "policyFour = \<lparr>defragmentationStates = [(7, MoveAndMergeChunks phaseFour)],
     concurrentStreamingOps = 0, nextStreamingActionPromise = False, streamClosed = False\<rparr>"

section \<open>Facts about ordered maps\<close>

lemma map_of_map_put: "map_of (map_put k v m) = (map_of m)(k \<mapsto> v)"
  by (induction m) (auto simp: fun_eq_iff)

lemma map_of_map_index:
  "map_of (map_index k dflt f m) =
     (map_of m)(k \<mapsto> f (case map_of m k of None \<Rightarrow> dflt | Some v \<Rightarrow> v))"
  by (simp add: map_index_def map_of_map_put)

lemma map_of_map_erase: "map_of (map_erase k m) = (map_of m)(k := None)"
  by (induction m) (auto simp: map_erase_def fun_eq_iff)

section \<open>Facts about machine integers\<close>

lemma threshold_uint: "uint (smallChunkSizeThreshold m) = (uint m div 100) * 25"
proof -
  have "uint m < 2 ^ 64" using uint_lt2p [of m] by simp
  then have b: "(uint m div 100) * 25 < 2 ^ 64" by simp
  have nn: "0 \<le> (uint m div 100) * 25"
    using uint_ge_0 [of m] by (simp add: pos_imp_zdiv_nonneg_iff)
  have "uint ((m div 100) * 25) = ((uint m div 100) * 25) mod 2 ^ 64"
    by (simp add: uint_word_ariths uint_div)
  also have "\<dots> = (uint m div 100) * 25" using b nn by simp
  finally show ?thesis by (simp add: smallChunkSizeThreshold_def kSmallChunkSizeThresholdPctg_def)
qed

lemma sint_eq_uint_small:
  fixes w :: "64 word"
  assumes "uint w < 2 ^ 63"
  shows "sint w = uint w"
proof -
  have "- (2 ^ 63) \<le> (0::int)" by simp
  then have "- (2 ^ 63) \<le> uint w" using uint_ge_0 [of w] by (rule order_trans)
  then have "signed_take_bit 63 (uint w) = uint w"
    using assms by (intro signed_take_bit_int_eq_self) simp_all
  then show ?thesis by (simp add: sint_uint)
qed

lemma threshold_sint: "sint (smallChunkSizeThreshold m) = (uint m div 100) * 25"
proof -
  have "uint m < 2 ^ 64" using uint_lt2p [of m] by simp
  then have b: "(uint m div 100) * 25 < 2 ^ 63" by simp
  then have "uint (smallChunkSizeThreshold m) < 2 ^ 63" by (simp add: threshold_uint)
  then have "sint (smallChunkSizeThreshold m) = uint (smallChunkSizeThreshold m)"
    by (rule sint_eq_uint_small)
  then show ?thesis by (simp add: threshold_uint)
qed

lemma sint_add64_no_overflow:
  fixes a b :: "64 word"
  assumes "- (2 ^ 63) \<le> sint a + sint b" "sint a + sint b < 2 ^ 63"
  shows "sint (a + b) = sint a + sint b"
proof -
  have "signed_take_bit 63 (sint a + sint b) = sint a + sint b"
    using assms by (intro signed_take_bit_int_eq_self) simp_all
  then show ?thesis by (simp add: sint_word_ariths)
qed

section \<open>Facts about the choice of a migration\<close>

lemma map_of_updateChunk:
  "map_of (updateChunk it f chunks) = (\<lambda>k. if k = it then map_option f (map_of chunks k) else map_of chunks k)"
  by (induction chunks) (auto simp: updateChunk_def fun_eq_iff)

lemma map_of_eraseChunk: "map_of (eraseChunk it chunks) = (map_of chunks)(it := None)"
  by (induction chunks) (auto simp: eraseChunk_def fun_eq_iff)

lemma canBeMoveAndMerged_True:
  assumes "canBeMoveAndMerged p chunk sibling = Inr True"
  shows "mm_zoneInfo p (cri_range chunk) = mm_zoneInfo p (cri_range sibling)
    \<and> (cri_shard chunk = cri_shard sibling
       \<or> (\<exists>info. map_of (mm_shardInfos p) (cri_shard sibling) = Some info
                 \<and> canReceiveNewChunks info))"
  using assms by (auto simp: canBeMoveAndMerged_def Let_def split: if_splits option.splits)

lemma getChunkSiblings_mergeable:
  assumes "getChunkSiblings p chunkIt chunk = Inr siblings" "s \<in> set siblings"
  shows "canBeMoveAndMerged p chunk (snd s) = Inr True"
  using assms
  by (auto simp: getChunkSiblings_def split: option.splits sum.splits if_splits)

lemma getChunkSiblings_length:
  assumes "getChunkSiblings p chunkIt chunk = Inr siblings"
  shows "length siblings \<le> 2"
  using assms
  by (auto simp: getChunkSiblings_def split: option.splits sum.splits if_splits)

lemma scanSmallChunks_choice:
  assumes "scanSmallChunks p usedShards l = Inr (l', Some (cand, sibs))"
  shows "fst cand \<in> set l \<and> map_of (mm_collectionChunks p) (fst cand) = Some (snd cand)
     \<and> \<not> cri_busyInOperation (snd cand) \<and> sibs \<noteq> []
     \<and> (\<exists>allSiblings. getChunkSiblings p (fst cand) (snd cand) = Inr allSiblings
            \<and> sibs = filter (\<lambda>sibling. \<not> cri_busyInOperation (snd sibling)
                                  \<and> cri_shard (snd sibling) \<notin> usedShards) allSiblings)"
  using assms
proof (induction l arbitrary: l')
  case Nil
  then show ?case by simp
next
  case (Cons a l)
  then show ?case
    by (auto simp: deref_def Let_def split: option.splits sum.splits if_splits prod.splits)
qed

lemma scanSmallChunks_subset:
  assumes "scanSmallChunks p usedShards l = Inr (l', r)"
  shows "set l' \<subseteq> set l"
  using assms
proof (induction l arbitrary: l' r)
  case Nil
  then show ?case by simp
next
  case (Cons a l)
  then show ?case
    by (fastforce simp: deref_def Let_def split: option.splits sum.splits if_splits prod.splits)
qed

definition smallShrinks ::
  "(ShardId \<times> ChunkRangeInfoIterator list) list \<Rightarrow> (ShardId \<times> ChunkRangeInfoIterator list) list
     \<Rightarrow> bool" where
  "smallShrinks small small' \<longleftrightarrow>
     (\<forall>s l'. map_of small' s = Some l' \<longrightarrow>
        (\<exists>l. map_of small s = Some l \<and> set l' \<subseteq> set l \<and> (distinct l \<longrightarrow> distinct l')))"

lemma smallShrinks_refl: "smallShrinks a a"
  by (simp add: smallShrinks_def)

lemma smallShrinks_trans:
  assumes "smallShrinks a b" "smallShrinks b c"
  shows "smallShrinks a c"
  unfolding smallShrinks_def
proof (intro allI impI)
  fix s l'' assume "map_of c s = Some l''"
  with assms(2) obtain l' where 1: "map_of b s = Some l'" "set l'' \<subseteq> set l'"
    "distinct l' \<longrightarrow> distinct l''"
    unfolding smallShrinks_def by blast
  with assms(1) obtain l where 2: "map_of a s = Some l" "set l' \<subseteq> set l"
    "distinct l \<longrightarrow> distinct l'"
    unfolding smallShrinks_def by blast
  show "\<exists>l. map_of a s = Some l \<and> set l'' \<subseteq> set l \<and> (distinct l \<longrightarrow> distinct l'')"
    using 1 2 by auto
qed

lemma scanSmallChunks_distinct:
  assumes "scanSmallChunks p usedShards l = Inr (l', r)" "distinct l"
  shows "distinct l'"
  using assms
proof (induction l arbitrary: l' r)
  case Nil
  then show ?case by simp
next
  case (Cons a l)
  have sub: "\<And>l1 r1. scanSmallChunks p usedShards l = Inr (l1, r1) \<Longrightarrow> a \<notin> set l1"
    using scanSmallChunks_subset Cons.prems(2) by fastforce
  from Cons show ?case
    by (auto simp: deref_def Let_def dest: sub
        split: option.splits sum.splits if_splits prod.splits)
qed

lemma findNextSmallChunkInShard_small:
  assumes "findNextSmallChunkInShard shard usedShards p = Inr (q, r)"
  shows "\<exists>small'. q = p\<lparr>mm_smallChunksByShard := small'\<rparr>
            \<and> smallShrinks (mm_smallChunksByShard p) small'"
proof (cases "map_of (mm_smallChunksByShard p) shard")
  case None
  then have "q = p" using assms by (simp add: findNextSmallChunkInShard_def)
  then show ?thesis
    by (intro exI [of _ "mm_smallChunksByShard p"]) (simp add: smallShrinks_refl)
next
  case (Some l)
  from assms Some obtain l' c where scan: "scanSmallChunks p usedShards l = Inr (l', c)"
    by (auto simp: findNextSmallChunkInShard_def split: sum.splits)
  have sub: "set l' \<subseteq> set l" using scan by (rule scanSmallChunks_subset)
  have dis: "distinct l \<longrightarrow> distinct l'" using scan scanSmallChunks_distinct by blast
  have a: "smallShrinks (mm_smallChunksByShard p) (map_put shard l' (mm_smallChunksByShard p))"
    using Some sub dis by (auto simp: smallShrinks_def map_of_map_put)
  have b: "smallShrinks (mm_smallChunksByShard p) (map_erase shard (mm_smallChunksByShard p))"
    by (auto simp: smallShrinks_def map_of_map_erase)
  show ?thesis
    using assms Some scan a b
    by (auto simp: findNextSmallChunkInShard_def split: option.splits if_splits)
qed

lemma findNextSmallChunkInShard_choice:
  assumes "findNextSmallChunkInShard shard usedShards p = Inr (q, Some (cand, sibs))"
  shows "\<exists>l. map_of (mm_smallChunksByShard p) shard = Some l \<and> fst cand \<in> set l
     \<and> map_of (mm_collectionChunks p) (fst cand) = Some (snd cand)
     \<and> \<not> cri_busyInOperation (snd cand) \<and> sibs \<noteq> []
     \<and> (\<exists>allSiblings. getChunkSiblings p (fst cand) (snd cand) = Inr allSiblings
            \<and> sibs = filter (\<lambda>sibling. \<not> cri_busyInOperation (snd sibling)
                                  \<and> cri_shard (snd sibling) \<notin> usedShards) allSiblings)"
proof (cases "map_of (mm_smallChunksByShard p) shard")
  case None
  then show ?thesis using assms by (simp add: findNextSmallChunkInShard_def)
next
  case (Some l)
  from assms Some obtain l' where scan:
    "scanSmallChunks p usedShards l = Inr (l', Some (cand, sibs))"
    by (auto simp: findNextSmallChunkInShard_def split: sum.splits option.splits)
  show ?thesis using scanSmallChunks_choice [OF scan] Some by simp
qed

lemma chooseTargetSibling_mem:
  assumes "chooseTargetSibling p cand sibs = Inr target"
  shows "target \<in> set sibs"
  using assms
  by (auto simp: chooseTargetSibling_def Let_def split: if_splits option.splits)

lemma canBeMoveAndMerged_small_update:
  "canBeMoveAndMerged (p\<lparr>mm_smallChunksByShard := x\<rparr>) c t = canBeMoveAndMerged p c t"
  by (simp add: canBeMoveAndMerged_def Let_def cong: if_cong)

definition migrationChoice ::
  "MoveAndMergeChunksPhase \<Rightarrow> ShardId set \<Rightarrow> MigrateInfo \<Rightarrow> ShardId set \<Rightarrow> ShardId \<Rightarrow> bool" where
  "migrationChoice p usedShards m usedShards' shardId \<longleftrightarrow>
     (\<exists>l candIt cand target.
         map_of (mm_smallChunksByShard p) shardId = Some l \<and> candIt \<in> set l
       \<and> map_of (mm_collectionChunks p) candIt = Some cand
       \<and> canBeMoveAndMerged p cand target = Inr True
       \<and> cri_shard target \<notin> usedShards
       \<and> mig_from m = cri_shard cand \<and> mig_to m = cri_shard target
       \<and> usedShards' = insert (cri_shard target) (insert (cri_shard cand) usedShards))"

lemma migrationChoice_shrunk:
  assumes "migrationChoice (p\<lparr>mm_smallChunksByShard := small'\<rparr>) usedShards m usedShards' shardId"
    and "smallShrinks (mm_smallChunksByShard p) small'"
  shows "migrationChoice p usedShards m usedShards' shardId"
proof -
  from assms(1) obtain l' candIt cand target where
    h: "map_of small' shardId = Some l'" "candIt \<in> set l'"
       "map_of (mm_collectionChunks p) candIt = Some cand"
       "canBeMoveAndMerged (p\<lparr>mm_smallChunksByShard := small'\<rparr>) cand target = Inr True"
       "cri_shard target \<notin> usedShards"
       "mig_from m = cri_shard cand" "mig_to m = cri_shard target"
       "usedShards' = insert (cri_shard target) (insert (cri_shard cand) usedShards)"
    unfolding migrationChoice_def by auto
  from h(1) assms(2) obtain l where l: "map_of (mm_smallChunksByShard p) shardId = Some l"
    "set l' \<subseteq> set l"
    unfolding smallShrinks_def by blast
  have mer: "canBeMoveAndMerged p cand target = Inr True"
    using h(4) by (simp add: canBeMoveAndMerged_small_update)
  have "candIt \<in> set l" using h(2) l(2) by auto
  then show ?thesis
    unfolding migrationChoice_def using l(1) h(3) mer h(5-8) by blast
qed

lemma popNextMigrationFrom_Some:
  assumes "popNextMigrationFrom cat order usedShards p = (Inr (Some m), usedShards', p')"
  shows "\<exists>shardId \<in> set order. shardId \<notin> usedShards
            \<and> migrationChoice p usedShards m usedShards' shardId"
  using assms
proof (induction cat order usedShards p rule: popNextMigrationFrom.induct)
  case (1 cat usedShards p)
  then show ?case by simp
next
  case (2 cat shardId rest usedShards p)
  show ?case
  proof (cases "shardId \<in> usedShards")
    case True
    then have "popNextMigrationFrom cat rest usedShards p = (Inr (Some m), usedShards', p')"
      using "2.prems" by simp
    from "2.IH"(1) [OF True this] show ?thesis by auto
  next
    case False
    show ?thesis
    proof (cases "findNextSmallChunkInShard shardId usedShards p")
      case (Inl e)
      with 2 False show ?thesis by simp
    next
      case (Inr found)
      obtain q r where found: "found = (q, r)" by (cases found)
      obtain small' where q: "q = p\<lparr>mm_smallChunksByShard := small'\<rparr>"
        and shr: "smallShrinks (mm_smallChunksByShard p) small'"
        using findNextSmallChunkInShard_small [of shardId usedShards p q r] Inr found by auto
      show ?thesis
      proof (cases r)
        case None
        have sn: "snd found = None" using found None by simp
        have "popNextMigrationFrom cat rest usedShards (fst found)
                = (Inr (Some m), usedShards', p')"
          using "2.prems" False Inr found None by simp
        from "2.IH"(2) [OF False Inr sn this] found
        obtain shardId' where
          h: "shardId' \<in> set rest" "shardId' \<notin> usedShards"
             "migrationChoice q usedShards m usedShards' shardId'"
          by auto
        have "migrationChoice p usedShards m usedShards' shardId'"
          using h(3) shr unfolding q by (rule migrationChoice_shrunk)
        then show ?thesis using h(1,2) by auto
      next
        case (Some choice)
        obtain cand sibs where choice: "choice = (cand, sibs)" by (cases choice)
        have fnd: "findNextSmallChunkInShard shardId usedShards p = Inr (q, Some (cand, sibs))"
          using Inr found Some choice by simp
        from findNextSmallChunkInShard_choice [OF fnd] obtain l allSiblings where
          c: "map_of (mm_smallChunksByShard p) shardId = Some l" "fst cand \<in> set l"
             "map_of (mm_collectionChunks p) (fst cand) = Some (snd cand)"
             "getChunkSiblings p (fst cand) (snd cand) = Inr allSiblings"
             "sibs = filter (\<lambda>sibling. \<not> cri_busyInOperation (snd sibling)
                                  \<and> cri_shard (snd sibling) \<notin> usedShards) allSiblings"
          by auto
        from "2.prems" False fnd obtain target where
          t: "chooseTargetSibling q (snd cand) sibs = Inr target"
          by (auto split: sum.splits)
        have tin: "target \<in> set sibs" using t by (rule chooseTargetSibling_mem)
        then have t1: "target \<in> set allSiblings" "cri_shard (snd target) \<notin> usedShards"
          using c(5) by auto
        have mer: "canBeMoveAndMerged p (snd cand) (snd target) = Inr True"
          using getChunkSiblings_mergeable [OF c(4) t1(1)] .
        from "2.prems" False fnd t
        have "mig_from m = cri_shard (snd cand) \<and> mig_to m = cri_shard (snd target)
            \<and> usedShards' = insert (cri_shard (snd target)) (insert (cri_shard (snd cand)) usedShards)"
          by (auto simp: Let_def asMigrateInfo_def split: sum.splits)
        then have "migrationChoice p usedShards m usedShards' shardId"
          unfolding migrationChoice_def using c(1,2,3) mer t1(2) by blast
        then show ?thesis using False by auto
      qed
    qed
  qed
qed

subsection \<open>The index of small chunks\<close>

lemma smallIndexSound_shrinks:
  assumes "smallIndexSound small chunks" "smallShrinks small small'"
  shows "smallIndexSound small' chunks"
  unfolding smallIndexSound_def
proof (intro allI impI)
  fix s l' assume "map_of small' s = Some l'"
  with assms(2) obtain l where l: "map_of small s = Some l" "set l' \<subseteq> set l"
    "distinct l \<longrightarrow> distinct l'"
    unfolding smallShrinks_def by blast
  with assms(1) show "distinct l' \<and> (\<forall>it \<in> set l'. \<exists>c. map_of chunks it = Some c \<and> cri_shard c = s)"
    unfolding smallIndexSound_def by blast
qed

lemma smallIndexSound_chunks:
  assumes "smallIndexSound small chunks"
    and "\<And>it c l s. map_of small s = Some l \<Longrightarrow> it \<in> set l \<Longrightarrow> map_of chunks it = Some c
           \<Longrightarrow> \<exists>c'. map_of chunks' it = Some c' \<and> cri_shard c' = cri_shard c"
  shows "smallIndexSound small chunks'"
  unfolding smallIndexSound_def
proof (intro allI impI conjI ballI)
  fix s l assume l: "map_of small s = Some l"
  then show "distinct l" using assms(1) unfolding smallIndexSound_def by blast
  fix it assume it: "it \<in> set l"
  with l assms(1) obtain c where c: "map_of chunks it = Some c" "cri_shard c = s"
    unfolding smallIndexSound_def by blast
  from assms(2) [OF l it c(1)] c(2)
  show "\<exists>c. map_of chunks' it = Some c \<and> cri_shard c = s" by auto
qed

lemma removeIterator_shrinks:
  "smallShrinks small (removeIteratorFromSmallChunks it s small)"
proof (cases "map_of small s")
  case None
  then show ?thesis by (simp add: removeIteratorFromSmallChunks_def smallShrinks_refl)
next
  case (Some l)
  have a: "smallShrinks small (map_put s (remove1 it l) small)"
    using Some by (auto simp: smallShrinks_def map_of_map_put set_remove1_subset dest: notin_set_remove1)
  have b: "smallShrinks small (map_erase s small)"
    by (auto simp: smallShrinks_def map_of_map_erase)
  show ?thesis
    using Some a b by (simp add: removeIteratorFromSmallChunks_def smallShrinks_refl)
qed

lemma removeIterator_gone:
  assumes "smallIndexSound small chunks" "map_of chunks it = Some c"
    and "map_of (removeIteratorFromSmallChunks it (cri_shard c) small) s = Some l"
  shows "it \<notin> set l"
proof
  assume mem: "it \<in> set l"
  let ?small' = "removeIteratorFromSmallChunks it (cri_shard c) small"
  have shr: "smallShrinks small ?small'" by (rule removeIterator_shrinks)
  with assms(3) obtain l0 where l0: "map_of small s = Some l0" "set l \<subseteq> set l0"
    unfolding smallShrinks_def by blast
  with mem assms(1,2) have s: "s = cri_shard c" and d: "distinct l0"
    unfolding smallIndexSound_def by fastforce+
  from mem l0 have in0: "it \<in> set l0" by auto
  show False
  proof (cases "remove1 it l0 = []")
    case True
    then have "map_of ?small' s = None"
      using l0(1) in0 s by (simp add: removeIteratorFromSmallChunks_def map_of_map_erase)
    with assms(3) show False by simp
  next
    case False
    then have "map_of ?small' s = Some (remove1 it l0)"
      using l0(1) in0 s by (simp add: removeIteratorFromSmallChunks_def map_of_map_put)
    with assms(3) have "l = remove1 it l0" by simp
    with mem d show False by simp
  qed
qed

lemma sortSmallChunks_set:
  assumes "sortSmallChunks chunks l = Inr l'"
  shows "set l' = set l \<and> (distinct l' \<longleftrightarrow> distinct l)"
  using assms by (auto simp: sortSmallChunks_def split: if_splits)

lemma sortSmallChunks_live:
  assumes "\<forall>it \<in> set l. map_of chunks it \<noteq> None"
  shows "sortSmallChunks chunks l = Inr (sort_key (sizeOfIterator chunks) l)"
  using assms by (auto simp: sortSmallChunks_def)

lemma mm_onMergeSuccess_result:
  assumes mv: "map_of (mm_collectionChunks p) (chunkToMove r) = Some toMove"
    and mw: "map_of (mm_collectionChunks p) (chunkToMergeWith r) = Some toMergeWith"
    and ne: "chunkToMove r \<noteq> chunkToMergeWith r"
    and S: "smallIndexSound (mm_smallChunksByShard p) (mm_collectionChunks p)"
  shows "\<exists>small'. mm_onMergeSuccess r p =
            Inr (p\<lparr>mm_collectionChunks :=
                    eraseChunk (chunkToMove r)
                      (updateChunk (chunkToMergeWith r) (mergedChunkUpdate r toMove toMergeWith)
                         (mm_collectionChunks p)),
                   mm_smallChunksByShard := small'\<rparr>)
          \<and> smallShrinks (removeIteratorFromSmallChunks (chunkToMove r) (cri_shard toMove)
                              (mm_smallChunksByShard p)) small'"
proof -
  let ?F = "mergedChunkUpdate r toMove toMergeWith"
  let ?chunks2 = "eraseChunk (chunkToMove r)
                    (updateChunk (chunkToMergeWith r) ?F (mm_collectionChunks p))"
  let ?small1 = "removeIteratorFromSmallChunks (chunkToMove r) (cri_shard toMove)
                   (mm_smallChunksByShard p)"
  let ?merged = "?F toMergeWith"
  have lookup: "\<And>it. map_of ?chunks2 it =
      (if it = chunkToMove r then None
       else if it = chunkToMergeWith r then map_option ?F (map_of (mm_collectionChunks p) it)
       else map_of (mm_collectionChunks p) it)"
    by (simp add: map_of_eraseChunk map_of_updateChunk)
  have merged: "map_of ?chunks2 (chunkToMergeWith r) = Some ?merged"
    using ne mw by (simp add: lookup)
  have sh: "cri_shard ?merged = cri_shard toMergeWith"
    by (simp add: mergedChunkUpdate_def)
  have unfold: "mm_onMergeSuccess r p =
     (if mm_smallChunkSizeThresholdBytes p <s cri_estimatedSizeBytes ?merged
      then Inr (p\<lparr>mm_collectionChunks := ?chunks2,
                  mm_smallChunksByShard :=
                    removeIteratorFromSmallChunks (chunkToMergeWith r) (cri_shard ?merged) ?small1\<rparr>)
      else (case map_of ?small1 (cri_shard ?merged) of
              None \<Rightarrow> Inr (p\<lparr>mm_collectionChunks := ?chunks2, mm_smallChunksByShard := ?small1\<rparr>)
            | Some smallChunksInRecipient \<Rightarrow>
                (case sortSmallChunks ?chunks2 smallChunksInRecipient of
                   Inl e \<Rightarrow> Inl e
                 | Inr sortedChunks \<Rightarrow>
                     Inr (p\<lparr>mm_collectionChunks := ?chunks2,
                            mm_smallChunksByShard :=
                              map_put (cri_shard ?merged) sortedChunks ?small1\<rparr>))))"
  proof -
    have F: "(\<lambda>c. c\<lparr>cri_range := asMergedRange r toMove toMergeWith,
                    cri_estimatedSizeBytes :=
                      cri_estimatedSizeBytes c + cri_estimatedSizeBytes toMove,
                    cri_busyInOperation := False\<rparr>) = ?F"
      by (simp add: mergedChunkUpdate_def fun_eq_iff)
    show ?thesis
      unfolding mm_onMergeSuccess_def deref_def Let_def mv mw option.case sum.case F merged
      by (rule refl)
  qed
  show ?thesis
  proof (cases "mm_smallChunkSizeThresholdBytes p <s cri_estimatedSizeBytes ?merged")
    case True
    show ?thesis
      by (rule exI [of _ "removeIteratorFromSmallChunks (chunkToMergeWith r)
                             (cri_shard ?merged) ?small1"])
         (simp add: unfold True removeIterator_shrinks)
  next
    case False
    show ?thesis
    proof (cases "map_of ?small1 (cri_shard ?merged)")
      case None
      show ?thesis
        by (rule exI [of _ ?small1]) (simp add: unfold False None smallShrinks_refl)
    next
      case (Some l)
      have s1: "smallIndexSound ?small1 (mm_collectionChunks p)"
        using S removeIterator_shrinks by (rule smallIndexSound_shrinks)
      have gone: "chunkToMove r \<notin> set l"
        using removeIterator_gone [OF S mv Some] .
      have live: "\<forall>it \<in> set l. map_of ?chunks2 it \<noteq> None"
      proof
        fix it assume it: "it \<in> set l"
        with s1 Some obtain c where "map_of (mm_collectionChunks p) it = Some c"
          unfolding smallIndexSound_def by blast
        moreover have "it \<noteq> chunkToMove r" using it gone by auto
        ultimately show "map_of ?chunks2 it \<noteq> None" using mw by (auto simp: lookup)
      qed
      have srt: "sortSmallChunks ?chunks2 l = Inr (sort_key (sizeOfIterator ?chunks2) l)"
        using live by (rule sortSmallChunks_live)
      have shr: "smallShrinks ?small1
                   (map_put (cri_shard ?merged) (sort_key (sizeOfIterator ?chunks2) l) ?small1)"
        using Some by (auto simp: smallShrinks_def map_of_map_put)
      show ?thesis
        by (rule exI [of _ "map_put (cri_shard ?merged)
                              (sort_key (sizeOfIterator ?chunks2) l) ?small1"])
           (simp add: unfold False Some srt shr)
    qed
  qed
qed

subsection \<open>The requests of a move-and-merge phase along a run\<close>

lemma findRequest_split:
  assumes "findRequest matches chunks queue = Inr (Some (r, rest))"
  shows "\<exists>a b. queue = a @ r # b \<and> rest = a @ b"
  using assms
proof (induction queue arbitrary: rest)
  case Nil
  then show ?case by simp
next
  case (Cons x queue)
  show ?case
  proof (cases "deref chunks (chunkToMove x)")
    case (Inl e)
    with Cons.prems show ?thesis by simp
  next
    case (Inr toMove)
    show ?thesis
    proof (cases "matches toMove")
      case True
      with Cons.prems Inr have "r = x" "rest = queue" by simp_all
      then show ?thesis by (intro exI [of _ "[]"] exI [of _ queue]) simp
    next
      case False
      with Cons.prems Inr obtain rest' where
        f: "findRequest matches chunks queue = Inr (Some (r, rest'))" and rest: "rest = x # rest'"
        by (auto split: sum.splits option.splits)
      from Cons.IH [OF f] obtain a b where "queue = a @ r # b" "rest' = a @ b" by blast
      then show ?thesis using rest
        by (intro exI [of _ "x # a"] exI [of _ b]) simp
    qed
  qed
qed

lemma nextIt_mem: "nextIt chunks it = Some s \<Longrightarrow> s \<in> set chunks"
  by (induction chunks it rule: nextIt.induct) (auto split: if_splits)

lemma prevIt_mem: "prevIt chunks it = Some s \<Longrightarrow> s \<in> set chunks"
  by (induction chunks it rule: prevIt.induct) (auto split: if_splits)

lemma getChunkSiblings_mem:
  assumes "getChunkSiblings p chunkIt chunk = Inr siblings" "s \<in> set siblings"
  shows "s \<in> set (mm_collectionChunks p)"
  using assms
  by (auto simp: getChunkSiblings_def split: option.splits sum.splits if_splits
           dest: nextIt_mem prevIt_mem)

lemma popEffect_small:
  "popEffect (p\<lparr>mm_smallChunksByShard := small'\<rparr>) res q = popEffect p res q"
  by (simp add: popEffect_def cong: sum.case_cong option.case_cong)

lemma popEffect_refl: "popEffect p (Inr None) p" "popEffect p (Inl e) p"
  by (simp_all add: popEffect_def)

lemma map_fst_updateChunk: "map fst (updateChunk it f chunks) = map fst chunks"
  by (induction chunks) (auto simp: updateChunk_def)

lemma popEffect_chosen:
  assumes cand: "map_of (mm_collectionChunks p) (fst cand) = Some (snd cand)"
      "\<not> cri_busyInOperation (snd cand)"
    and tgt: "map_of (mm_collectionChunks p) (fst target) = Some (snd target)"
      "\<not> cri_busyInOperation (snd target)"
    and p1: "p1 = p\<lparr>mm_collectionChunks :=
                 updateChunk (fst target) (\<lambda>c. c\<lparr>cri_busyInOperation := True\<rparr>)
                   (updateChunk (fst cand) (\<lambda>c. c\<lparr>cri_busyInOperation := True\<rparr>)
                      (mm_collectionChunks p))\<rparr>"
  shows "popEffect p (Inl e) p1"
    and "popEffect p (Inr (Some m))
           (p1\<lparr>mm_outstandingMigrations := mm_outstandingMigrations p1 @ [makeRequest cand target]\<rparr>)"
  using cand tgt unfolding p1 popEffect_def
  by (auto simp: map_of_updateChunk map_fst_updateChunk refs_def makeRequest_def)

lemma popNextMigrationFrom_effect:
  assumes "popNextMigrationFrom cat order usedShards p = (res, usedShards', p')"
    and "distinct (map fst (mm_collectionChunks p))"
  shows "popEffect p res p'"
  using assms
proof (induction cat order usedShards p rule: popNextMigrationFrom.induct)
  case (1 cat usedShards p)
  then show ?case by (auto simp: popEffect_refl)
next
  case (2 cat shardId rest usedShards p)
  show ?case
  proof (cases "shardId \<in> usedShards")
    case True
    then have "popNextMigrationFrom cat rest usedShards p = (res, usedShards', p')"
      using "2.prems" by simp
    from "2.IH"(1) [OF True this "2.prems"(2)] show ?thesis .
  next
    case False
    show ?thesis
    proof (cases "findNextSmallChunkInShard shardId usedShards p")
      case (Inl e)
      with "2.prems" False show ?thesis by (auto simp: popEffect_refl)
    next
      case (Inr found)
      obtain q r where found: "found = (q, r)" by (cases found)
      obtain small' where q: "q = p\<lparr>mm_smallChunksByShard := small'\<rparr>"
        using findNextSmallChunkInShard_small [of shardId usedShards p q r] Inr found by auto
      have dq: "distinct (map fst (mm_collectionChunks q))"
        using "2.prems"(2) q by simp
      show ?thesis
      proof (cases r)
        case None
        have sn: "snd found = None" using found None by simp
        have "popNextMigrationFrom cat rest usedShards (fst found) = (res, usedShards', p')"
          using "2.prems" False Inr found None by simp
        from "2.IH"(2) [OF False Inr sn this] dq found
        have "popEffect q res p'" by simp
        then show ?thesis unfolding q by (simp add: popEffect_small)
      next
        case (Some choice)
        obtain cand sibs where choice: "choice = (cand, sibs)" by (cases choice)
        have fnd: "findNextSmallChunkInShard shardId usedShards p = Inr (q, Some (cand, sibs))"
          using Inr found Some choice by simp
        from findNextSmallChunkInShard_choice [OF fnd] obtain allSiblings where
          c: "map_of (mm_collectionChunks p) (fst cand) = Some (snd cand)"
             "\<not> cri_busyInOperation (snd cand)"
             "getChunkSiblings p (fst cand) (snd cand) = Inr allSiblings"
             "sibs = filter (\<lambda>sibling. \<not> cri_busyInOperation (snd sibling)
                                  \<and> cri_shard (snd sibling) \<notin> usedShards) allSiblings"
          by auto
        show ?thesis
        proof (cases "chooseTargetSibling q (snd cand) sibs")
          case failed: (Inl e)
          with "2.prems" False fnd have "res = Inl e" "p' = q" by simp_all
          then show ?thesis unfolding q by (simp add: popEffect_def)
        next
          case chosen: (Inr target)
          have tin: "target \<in> set sibs" using chosen by (rule chooseTargetSibling_mem)
          then have t1: "target \<in> set allSiblings" "\<not> cri_busyInOperation (snd target)"
            using c(4) by auto
          have "(fst target, snd target) \<in> set (mm_collectionChunks p)"
            using getChunkSiblings_mem [OF c(3) t1(1)] by simp
          with "2.prems"(2)
          have tl: "map_of (mm_collectionChunks p) (fst target) = Some (snd target)"
            by (rule map_of_is_SomeI)
          define p1 where "p1 = q\<lparr>mm_collectionChunks :=
                 updateChunk (fst target) (\<lambda>c. c\<lparr>cri_busyInOperation := True\<rparr>)
                   (updateChunk (fst cand) (\<lambda>c. c\<lparr>cri_busyInOperation := True\<rparr>)
                      (mm_collectionChunks q))\<rparr>"
          have cq: "map_of (mm_collectionChunks q) (fst cand) = Some (snd cand)"
            "map_of (mm_collectionChunks q) (fst target) = Some (snd target)"
            using c(1) tl q by simp_all
          note eff = popEffect_chosen [OF cq(1) c(2) cq(2) t1(2) p1_def]
          show ?thesis
          proof (cases "getShardVersion cat (cri_shard (snd cand)) (mm_uuid p1)")
            case noVersion: (Inl e)
            with "2.prems" False fnd chosen have "res = Inl e" "p' = p1"
              by (simp_all add: Let_def p1_def)
            with eff(1) [of e] show ?thesis unfolding q by (simp add: popEffect_small)
          next
            case version: (Inr v)
            with "2.prems" False fnd chosen
            have "res = Inr (Some (asMigrateInfo (mm_uuid p1) (mm_nss p1) v (snd cand) (snd target)))"
              "p' = p1\<lparr>mm_outstandingMigrations :=
                        mm_outstandingMigrations p1 @ [makeRequest cand target]\<rparr>"
              by (simp_all add: Let_def p1_def)
            with eff(2) show ?thesis unfolding q by (simp add: popEffect_small)
          qed
        qed
      qed
    qed
  qed
qed

lemma requestsInv_carry:
  assumes "requestsInv p"
    and "distinct (map fst (mm_collectionChunks q))"
    and "distinct (allRequests q)"
    and "set (allRequests q) \<subseteq> set (allRequests p)"
    and "\<And>r it c. r \<in> set (allRequests q) \<Longrightarrow> it \<in> refs r
           \<Longrightarrow> map_of (mm_collectionChunks p) it = Some c \<Longrightarrow> cri_busyInOperation c
           \<Longrightarrow> \<exists>c'. map_of (mm_collectionChunks q) it = Some c' \<and> cri_busyInOperation c'"
  shows "requestsInv q"
  unfolding requestsInv_def
proof (intro conjI ballI impI)
  show "distinct (map fst (mm_collectionChunks q))" by fact
  show "distinct (allRequests q)" by fact
next
  fix r it assume r: "r \<in> set (allRequests q)" and it: "it \<in> refs r"
  from r assms(4) have "r \<in> set (allRequests p)" by auto
  with assms(1) it obtain c where "map_of (mm_collectionChunks p) it = Some c"
    "cri_busyInOperation c"
    unfolding requestsInv_def by blast
  from assms(5) [OF r it this]
  show "\<exists>c. map_of (mm_collectionChunks q) it = Some c \<and> cri_busyInOperation c" .
next
  fix r r' assume "r \<in> set (allRequests q)" "r' \<in> set (allRequests q)" "r \<noteq> r'"
  with assms(1,4) show "refs r \<inter> refs r' = {}"
    unfolding requestsInv_def by blast
qed

lemma requestsInv_removed:
  assumes inv: "requestsInv p"
    and r: "r \<in> set (allRequests p)"
    and r2: "r2 \<in> set (allRequests p)" "r2 \<noteq> r"
    and it: "it \<in> refs r2"
  shows "it \<noteq> chunkToMove r \<and> it \<noteq> chunkToMergeWith r"
proof -
  from inv r r2 have "refs r2 \<inter> refs r = {}" unfolding requestsInv_def by blast
  with it show ?thesis by (auto simp: refs_def)
qed

lemma mm_onMigrationSuccess_effect:
  assumes "mm_onMigrationSuccess r p = Inr q"
  shows "mm_collectionChunks q = mm_collectionChunks p
       \<and> mm_outstandingMigrations q = mm_outstandingMigrations p
       \<and> mm_outstandingMerges q = mm_outstandingMerges p
       \<and> mm_actionableMerges q = mm_actionableMerges p @ [r]"
  using assms
  by (auto simp: mm_onMigrationSuccess_def Let_def split: sum.splits if_splits)

lemma mm_onMergeSuccess_effect:
  assumes "mm_onMergeSuccess r p = Inr q"
  shows "(\<exists>F. mm_collectionChunks q
                = eraseChunk (chunkToMove r)
                    (updateChunk (chunkToMergeWith r) F (mm_collectionChunks p)))
       \<and> mm_outstandingMigrations q = mm_outstandingMigrations p
       \<and> mm_outstandingMerges q = mm_outstandingMerges p
       \<and> mm_actionableMerges q = mm_actionableMerges p"
  using assms
  by (auto simp: mm_onMergeSuccess_def Let_def split: sum.splits if_splits option.splits)

lemma distinct_map_fst_eraseChunk:
  "distinct (map fst chunks) \<Longrightarrow> distinct (map fst (eraseChunk it chunks))"
  by (simp add: eraseChunk_def distinct_map_filter)

lemma requestsInv_without:
  assumes inv: "requestsInv p"
    and q: "allRequests q = xs" "mm_collectionChunks q = mm_collectionChunks p"
    and xs: "distinct xs" "set xs \<subseteq> set (allRequests p)"
  shows "requestsInv q"
  using inv
proof (rule requestsInv_carry)
  show "distinct (map fst (mm_collectionChunks q))"
    using inv q(2) by (simp add: requestsInv_def)
  show "distinct (allRequests q)" using q(1) xs(1) by simp
  show "set (allRequests q) \<subseteq> set (allRequests p)" using q(1) xs(2) by simp
  fix r it c
  assume "map_of (mm_collectionChunks p) it = Some c" "cri_busyInOperation c"
  then show "\<exists>c'. map_of (mm_collectionChunks q) it = Some c' \<and> cri_busyInOperation c'"
    using q(2) by simp
qed

lemma mm_applyMigrationResult_effect:
  assumes inv: "requestsInv p"
    and res: "mm_applyMigrationResult m status p = (failure, q)"
  shows "requestsInv q
       \<and> set (mm_actionableMerges q) \<union> set (mm_outstandingMerges q)
           \<subseteq> set (mm_actionableMerges p) \<union> set (mm_outstandingMerges p)
               \<union> (if failure = None
                    then set_option (migrationSucceeded (Migrate m) (StatusResponse status) p)
                    else {})"
proof (cases "findRequest (\<lambda>toMove. woCompare (mig_minKey m) (getMin (cri_range toMove)) = 0)
                (mm_collectionChunks p) (mm_outstandingMigrations p)")
  case (Inl e)
  with res have "q = p" by (simp add: mm_applyMigrationResult_def)
  with inv show ?thesis by simp
next
  case (Inr found)
  show ?thesis
  proof (cases found)
    case None
    with res Inr have "q = p" by (simp add: mm_applyMigrationResult_def)
    with inv show ?thesis by simp
  next
    case (Some pair)
    obtain r rest where pair: "pair = (r, rest)" by (cases pair)
    from findRequest_split [of _ "mm_collectionChunks p" "mm_outstandingMigrations p" r rest]
      Inr Some pair
    obtain a b where ab: "mm_outstandingMigrations p = a @ r # b" "rest = a @ b" by blast
    let ?p1 = "p\<lparr>mm_outstandingMigrations := rest\<rparr>"
    have dp: "distinct (allRequests p)" using inv by (simp add: requestsInv_def)
    have rin: "r \<in> set (allRequests p)" using ab by (simp add: allRequests_def)
    have inv1: "requestsInv ?p1"
      using inv
      by (rule requestsInv_without [where xs = "allRequests ?p1"])
         (use dp ab in \<open>auto simp: allRequests_def\<close>)
    have out1: "r \<notin> set (allRequests ?p1)"
      using dp ab by (auto simp: allRequests_def)
    have sub1: "set (allRequests ?p1) \<subseteq> set (allRequests p)"
      using ab by (auto simp: allRequests_def)
    show ?thesis
    proof (cases "mm_aborted p")
      case True
      with res Inr Some pair have "q = ?p1" "failure = None"
        by (simp_all add: mm_applyMigrationResult_def Let_def)
      with inv1 show ?thesis by simp
    next
      case live: False
      show ?thesis
      proof (cases "status = OK")
        case True
        have ms: "migrationSucceeded (Migrate m) (StatusResponse status) p = Some r"
          using Inr Some pair live True by (simp add: migrationSucceeded_def)
        show ?thesis
        proof (cases "mm_onMigrationSuccess r ?p1")
          case failed: (Inl e)
          with res Inr Some pair live True have "q = ?p1" "failure = Some e"
            by (simp_all add: mm_applyMigrationResult_def Let_def handleActionResult_def)
          with inv1 show ?thesis by simp
        next
          case succeeded: (Inr p2)
          with res Inr Some pair live True have q: "q = p2" "failure = None"
            by (simp_all add: mm_applyMigrationResult_def Let_def handleActionResult_def)
          from mm_onMigrationSuccess_effect [OF succeeded]
          have e: "mm_collectionChunks p2 = mm_collectionChunks p"
            "mm_outstandingMigrations p2 = rest"
            "mm_outstandingMerges p2 = mm_outstandingMerges p"
            "mm_actionableMerges p2 = mm_actionableMerges p @ [r]"
            by simp_all
          have "requestsInv p2"
            using inv
            by (rule requestsInv_without [where xs = "allRequests p2"])
               (use dp ab e in \<open>auto simp: allRequests_def\<close>)
          then show ?thesis using q e ms by auto
        qed
      next
        case notOK: False
        show ?thesis
        proof (cases "isRetriableForDefragmentation status")
          case True
          show ?thesis
          proof (cases "mm_onMigrationRetriableError r ?p1")
            case failed: (Inl e)
            with res Inr Some pair live notOK True have "q = ?p1" "failure = Some e"
              by (simp_all add: mm_applyMigrationResult_def Let_def handleActionResult_def)
            with inv1 show ?thesis by simp
          next
            case succeeded: (Inr p2)
            with res Inr Some pair live notOK True have q: "q = p2" "failure = None"
              by (simp_all add: mm_applyMigrationResult_def Let_def handleActionResult_def)
            from succeeded have p2: "p2 = ?p1\<lparr>mm_collectionChunks :=
                    updateChunk (chunkToMergeWith r) (\<lambda>c. c\<lparr>cri_busyInOperation := False\<rparr>)
                      (updateChunk (chunkToMove r) (\<lambda>c. c\<lparr>cri_busyInOperation := False\<rparr>)
                         (mm_collectionChunks p))\<rparr>"
              by (auto simp: mm_onMigrationRetriableError_def split: if_splits)
            have "requestsInv p2"
              using inv1
            proof (rule requestsInv_carry)
              show "distinct (map fst (mm_collectionChunks p2))"
                using inv by (simp add: p2 map_fst_updateChunk requestsInv_def)
              show "distinct (allRequests p2)"
                using inv1 by (simp add: p2 allRequests_def requestsInv_def)
              show "set (allRequests p2) \<subseteq> set (allRequests ?p1)"
                by (simp add: p2 allRequests_def)
              fix r2 it c
              assume r2: "r2 \<in> set (allRequests p2)" and it: "it \<in> refs r2"
                and c: "map_of (mm_collectionChunks ?p1) it = Some c" "cri_busyInOperation c"
              have r2p: "r2 \<in> set (allRequests ?p1)" using r2 by (simp add: p2 allRequests_def)
              then have "r2 \<in> set (allRequests p)" "r2 \<noteq> r" using sub1 out1 by auto
              from requestsInv_removed [OF inv rin this it]
              show "\<exists>c'. map_of (mm_collectionChunks p2) it = Some c' \<and> cri_busyInOperation c'"
                using c by (simp add: p2 map_of_updateChunk)
            qed
            then show ?thesis using q by (simp add: p2)
          qed
        next
          case False
          with res Inr Some pair live notOK have q: "q = mm_abort kMergeChunks ?p1" "failure = None"
            by (simp_all add: mm_applyMigrationResult_def Let_def handleActionResult_def)
          have "requestsInv (mm_abort kMergeChunks ?p1)"
            using inv1
            by (rule requestsInv_without [where xs = "allRequests (mm_abort kMergeChunks ?p1)"])
               (use inv1 in \<open>auto simp: allRequests_def mm_abort_def requestsInv_def\<close>)
          then show ?thesis using q by (auto simp: mm_abort_def)
        qed
      qed
    qed
  qed
qed

lemma mm_applyMergeResult_effect:
  assumes inv: "requestsInv p"
    and res: "mm_applyMergeResult m status p = (failure, q)"
  shows "requestsInv q
       \<and> set (mm_actionableMerges q) \<union> set (mm_outstandingMerges q)
           \<subseteq> set (mm_actionableMerges p) \<union> set (mm_outstandingMerges p)"
proof (cases "findRequest (\<lambda>toMove. containsKey (mi_chunkRange m) (getMin (cri_range toMove)))
                (mm_collectionChunks p) (mm_outstandingMerges p)")
  case (Inl e)
  with res have "q = p" by (simp add: mm_applyMergeResult_def)
  with inv show ?thesis by simp
next
  case (Inr found)
  show ?thesis
  proof (cases found)
    case None
    with res Inr have "q = p" by (simp add: mm_applyMergeResult_def)
    with inv show ?thesis by simp
  next
    case (Some pair)
    obtain r rest where pair: "pair = (r, rest)" by (cases pair)
    from findRequest_split [of _ "mm_collectionChunks p" "mm_outstandingMerges p" r rest]
      Inr Some pair
    obtain a b where ab: "mm_outstandingMerges p = a @ r # b" "rest = a @ b" by blast
    let ?p1 = "p\<lparr>mm_outstandingMerges := rest\<rparr>"
    have dp: "distinct (allRequests p)" using inv by (simp add: requestsInv_def)
    have rin: "r \<in> set (allRequests p)" using ab by (simp add: allRequests_def)
    have inv1: "requestsInv ?p1"
      using inv
      by (rule requestsInv_without [where xs = "allRequests ?p1"])
         (use dp ab in \<open>auto simp: allRequests_def\<close>)
    have out1: "r \<notin> set (allRequests ?p1)"
      using dp ab by (auto simp: allRequests_def)
    have sub1: "set (allRequests ?p1) \<subseteq> set (allRequests p)"
      using ab by (auto simp: allRequests_def)
    have less: "set (mm_actionableMerges ?p1) \<union> set (mm_outstandingMerges ?p1)
           \<subseteq> set (mm_actionableMerges p) \<union> set (mm_outstandingMerges p)"
      using ab by auto
    show ?thesis
    proof (cases "mm_aborted p")
      case True
      with res Inr Some pair have "q = ?p1"
        by (simp_all add: mm_applyMergeResult_def Let_def)
      with inv1 less show ?thesis by simp
    next
      case live: False
      show ?thesis
      proof (cases "status = OK")
        case True
        show ?thesis
        proof (cases "mm_onMergeSuccess r ?p1")
          case failed: (Inl e)
          with res Inr Some pair live True have "q = ?p1"
            by (simp_all add: mm_applyMergeResult_def Let_def handleActionResult_def)
          with inv1 less show ?thesis by simp
        next
          case succeeded: (Inr p2)
          with res Inr Some pair live True have q: "q = p2"
            by (simp_all add: mm_applyMergeResult_def Let_def handleActionResult_def)
          from mm_onMergeSuccess_effect [OF succeeded] obtain F where
            e: "mm_collectionChunks p2
                  = eraseChunk (chunkToMove r)
                      (updateChunk (chunkToMergeWith r) F (mm_collectionChunks p))"
               "mm_outstandingMigrations p2 = mm_outstandingMigrations p"
               "mm_outstandingMerges p2 = rest"
               "mm_actionableMerges p2 = mm_actionableMerges p"
            by auto
          have "requestsInv p2"
            using inv1
          proof (rule requestsInv_carry)
            show "distinct (map fst (mm_collectionChunks p2))"
              using inv
              by (simp add: e distinct_map_fst_eraseChunk map_fst_updateChunk requestsInv_def)
            show "distinct (allRequests p2)"
              using inv1 by (simp add: e allRequests_def requestsInv_def)
            show "set (allRequests p2) \<subseteq> set (allRequests ?p1)"
              by (simp add: e allRequests_def)
            fix r2 it c
            assume r2: "r2 \<in> set (allRequests p2)" and it: "it \<in> refs r2"
              and c: "map_of (mm_collectionChunks ?p1) it = Some c" "cri_busyInOperation c"
            have r2p: "r2 \<in> set (allRequests ?p1)" using r2 by (simp add: e allRequests_def)
            then have "r2 \<in> set (allRequests p)" "r2 \<noteq> r" using sub1 out1 by auto
            from requestsInv_removed [OF inv rin this it]
            show "\<exists>c'. map_of (mm_collectionChunks p2) it = Some c' \<and> cri_busyInOperation c'"
              using c by (simp add: e map_of_updateChunk map_of_eraseChunk)
          qed
          then show ?thesis using q e ab by auto
        qed
      next
        case notOK: False
        show ?thesis
        proof (cases "isRetriableForDefragmentation status")
          case True
          with res Inr Some pair live notOK
          have q: "q = ?p1\<lparr>mm_actionableMerges := mm_actionableMerges ?p1 @ [r]\<rparr>"
            by (simp_all add: mm_applyMergeResult_def Let_def handleActionResult_def)
          have "requestsInv q"
            using inv
            by (rule requestsInv_without [where xs = "allRequests q"])
               (use dp ab q in \<open>auto simp: allRequests_def\<close>)
          then show ?thesis using q ab by auto
        next
          case False
          with res Inr Some pair live notOK have q: "q = mm_abort kMergeChunks ?p1"
            by (simp_all add: mm_applyMergeResult_def Let_def handleActionResult_def)
          have "requestsInv (mm_abort kMergeChunks ?p1)"
            using inv1
            by (rule requestsInv_without [where xs = "allRequests (mm_abort kMergeChunks ?p1)"])
               (use inv1 in \<open>auto simp: allRequests_def mm_abort_def requestsInv_def\<close>)
          then show ?thesis using q ab by (auto simp: mm_abort_def)
        qed
      qed
    qed
  qed
qed

lemma mm_applyActionResult_effect:
  assumes inv: "requestsInv p"
    and res: "mm_applyActionResult action response p = (failure, q)"
  shows "requestsInv q
       \<and> set (mm_actionableMerges q) \<union> set (mm_outstandingMerges q)
           \<subseteq> set (mm_actionableMerges p) \<union> set (mm_outstandingMerges p)
               \<union> (if failure = None then set_option (migrationSucceeded action response p)
                    else {})"
proof (cases action)
  case (Migrate m)
  show ?thesis
  proof (cases response)
    case (StatusResponse status)
    with res Migrate have "mm_applyMigrationResult m status p = (failure, q)"
      by (simp add: mm_applyActionResult_def)
    from mm_applyMigrationResult_effect [OF inv this] Migrate StatusResponse
    show ?thesis by (auto split: if_splits)
  qed (use res inv Migrate in \<open>auto simp: mm_applyActionResult_def\<close>)
next
  case (Merge m)
  show ?thesis
  proof (cases response)
    case (StatusResponse status)
    with res Merge have "mm_applyMergeResult m status p = (failure, q)"
      by (simp add: mm_applyActionResult_def)
    from mm_applyMergeResult_effect [OF inv this] show ?thesis by auto
  qed (use res inv Merge in \<open>auto simp: mm_applyActionResult_def\<close>)
qed (use res inv in \<open>auto simp: mm_applyActionResult_def\<close>)

lemma requestsInv_pop:
  assumes inv: "requestsInv p" and eff: "popEffect p res q"
  shows "requestsInv q
       \<and> (\<forall>m. res = Inr (Some m)
             \<longrightarrow> last (mm_outstandingMigrations q)
                    \<notin> set (mm_actionableMerges p) \<union> set (mm_outstandingMerges p))"
proof -
  have keys: "distinct (map fst (mm_collectionChunks q))"
    using inv eff by (simp add: requestsInv_def popEffect_def)
  have mono: "\<And>it c. map_of (mm_collectionChunks p) it = Some c \<Longrightarrow> cri_busyInOperation c
      \<Longrightarrow> \<exists>c'. map_of (mm_collectionChunks q) it = Some c' \<and> cri_busyInOperation c'"
    using eff unfolding popEffect_def by blast
  have same: "mm_actionableMerges q = mm_actionableMerges p"
    "mm_outstandingMerges q = mm_outstandingMerges p"
    using eff by (simp_all add: popEffect_def)
  show ?thesis
  proof (cases "\<exists>m. res = Inr (Some m)")
    case False
    then have "mm_outstandingMigrations q = mm_outstandingMigrations p"
      using eff by (auto simp: popEffect_def split: sum.splits option.splits)
    then have all: "allRequests q = allRequests p" using same by (simp add: allRequests_def)
    have "requestsInv q"
      using inv
    proof (rule requestsInv_carry)
      show "distinct (allRequests q)" using inv all by (simp add: requestsInv_def)
      show "set (allRequests q) \<subseteq> set (allRequests p)" using all by simp
    qed (use keys mono in auto)
    with False show ?thesis by auto
  next
    case True
    then obtain m where m: "res = Inr (Some m)" by blast
    with eff obtain r' where
      r': "mm_outstandingMigrations q = mm_outstandingMigrations p @ [r']"
          "\<forall>it \<in> refs r'. \<exists>c. map_of (mm_collectionChunks p) it = Some c
                                     \<and> \<not> cri_busyInOperation c"
          "\<forall>it \<in> refs r'. \<exists>c. map_of (mm_collectionChunks q) it = Some c
                                     \<and> cri_busyInOperation c"
      by (auto simp: popEffect_def)
    have busy: "\<And>r it. r \<in> set (allRequests p) \<Longrightarrow> it \<in> refs r
        \<Longrightarrow> \<exists>c. map_of (mm_collectionChunks p) it = Some c \<and> cri_busyInOperation c"
      using inv unfolding requestsInv_def by blast
    have apart: "\<And>r. r \<in> set (allRequests p) \<Longrightarrow> refs r \<inter> refs r' = {}"
    proof (rule ccontr)
      fix r assume r: "r \<in> set (allRequests p)" and "refs r \<inter> refs r' \<noteq> {}"
      then obtain it where it: "it \<in> refs r" "it \<in> refs r'" by auto
      from busy [OF r it(1)] r'(2) it(2) show False by auto
    qed
    have fresh: "r' \<notin> set (allRequests p)"
    proof
      assume "r' \<in> set (allRequests p)"
      from apart [OF this] show False by (simp add: refs_def)
    qed
    have all: "set (allRequests q) = insert r' (set (allRequests p))"
      using r'(1) same by (auto simp: allRequests_def)
    have dq: "distinct (allRequests q)"
      using inv fresh r'(1) same by (auto simp: allRequests_def requestsInv_def)
    have "requestsInv q"
      unfolding requestsInv_def
    proof (intro conjI ballI impI)
      show "distinct (map fst (mm_collectionChunks q))" by fact
      show "distinct (allRequests q)" by fact
    next
      fix r it assume r: "r \<in> set (allRequests q)" and it: "it \<in> refs r"
      show "\<exists>c. map_of (mm_collectionChunks q) it = Some c \<and> cri_busyInOperation c"
      proof (cases "r = r'")
        case True
        with r'(3) it show ?thesis by blast
      next
        case False
        with r all have "r \<in> set (allRequests p)" by auto
        from busy [OF this it] mono show ?thesis by blast
      qed
    next
      fix r1 r2 assume h: "r1 \<in> set (allRequests q)" "r2 \<in> set (allRequests q)" "r1 \<noteq> r2"
      show "refs r1 \<inter> refs r2 = {}"
      proof (cases "r1 = r'")
        case True
        with h all have "r2 \<in> set (allRequests p)" by auto
        from apart [OF this] True show ?thesis by auto
      next
        case n1: False
        with h all have in1: "r1 \<in> set (allRequests p)" by auto
        show ?thesis
        proof (cases "r2 = r'")
          case True
          with apart [OF in1] show ?thesis by simp
        next
          case False
          with h all have "r2 \<in> set (allRequests p)" by auto
          with inv in1 h(3) show ?thesis unfolding requestsInv_def by blast
        qed
      qed
    qed
    moreover have "last (mm_outstandingMigrations q)
                    \<notin> set (mm_actionableMerges p) \<union> set (mm_outstandingMerges p)"
      using fresh r'(1) by (auto simp: allRequests_def)
    ultimately show ?thesis by simp
  qed
qed

lemma succeededLast_other:
  assumes "succeededLast history r" "event \<noteq> MigrationRequested r"
  shows "succeededLast (event # history) r"
  using assms by simp

lemma mm_call_step:
  assumes inv: "historyInv history p"
    and call: "mm_call cat call p = (event, failure, q)"
  shows "historyInv (event # history) q
       \<and> (\<forall>r. event = MergeEmitted r \<longrightarrow> succeededLast history r)"
proof (cases call)
  case (PopNextMigration usedShards)
  obtain res used' q' where pop: "mm_popNextMigration cat usedShards p = (res, used', q')"
    by (cases "mm_popNextMigration cat usedShards p")
  have keys: "distinct (map fst (mm_collectionChunks p))"
    using inv by (simp add: historyInv_def requestsInv_def)
  have eff: "popEffect p res q'"
    using pop keys unfolding mm_popNextMigration_def by (rule popNextMigrationFrom_effect)
  from requestsInv_pop [OF _ eff] inv
  have rq: "requestsInv q'"
    and fresh: "\<forall>m. res = Inr (Some m)
             \<longrightarrow> last (mm_outstandingMigrations q')
                    \<notin> set (mm_actionableMerges p) \<union> set (mm_outstandingMerges p)"
    by (simp_all add: historyInv_def)
  have same: "mm_actionableMerges q' = mm_actionableMerges p"
    "mm_outstandingMerges q' = mm_outstandingMerges p"
    using eff by (simp_all add: popEffect_def)
  have q: "q = q'" using call PopNextMigration pop
    by (auto simp: mm_call_def split: sum.splits option.splits)
  have ev: "event = NoEvent \<or> (\<exists>m. res = Inr (Some m)
                \<and> event = MigrationRequested (last (mm_outstandingMigrations q')))"
    using call PopNextMigration pop
    by (auto simp: mm_call_def split: sum.splits option.splits)
  have "\<forall>r \<in> set (mm_actionableMerges q) \<union> set (mm_outstandingMerges q).
           succeededLast (event # history) r"
  proof
    fix r assume "r \<in> set (mm_actionableMerges q) \<union> set (mm_outstandingMerges q)"
    then have r: "r \<in> set (mm_actionableMerges p) \<union> set (mm_outstandingMerges p)"
      using q same by simp
    with inv have "succeededLast history r" by (simp add: historyInv_def)
    moreover have "event \<noteq> MigrationRequested r" using ev fresh r by auto
    ultimately show "succeededLast (event # history) r" by (rule succeededLast_other)
  qed
  then have "historyInv (event # history) q" using rq q by (simp add: historyInv_def)
  moreover have "\<forall>r. event \<noteq> MergeEmitted r" using ev by auto
  ultimately show ?thesis by simp
next
  case PopNextStreamableAction
  show ?thesis
  proof (cases "mm_actionableMerges p")
    case Nil
    with call PopNextStreamableAction have "event = NoEvent" "q = p"
      by (simp_all add: mm_call_def mm_popNextStreamableAction_def)
    with inv show ?thesis by (simp add: historyInv_def)
  next
    case (Cons r remaining)
    let ?p1 = "p\<lparr>mm_outstandingMerges := mm_outstandingMerges p @ [r],
                   mm_actionableMerges := remaining\<rparr>"
    have q: "q = ?p1"
      using call PopNextStreamableAction Cons
      by (auto simp: mm_call_def mm_popNextStreamableAction_def Let_def
               split: sum.splits option.splits)
    have ev: "event = NoEvent \<or> event = MergeEmitted r"
      using call PopNextStreamableAction Cons
      by (auto simp: mm_call_def mm_popNextStreamableAction_def Let_def
               split: sum.splits option.splits)
    have rp: "requestsInv p" using inv by (simp add: historyInv_def)
    have "requestsInv ?p1"
      using rp
      by (rule requestsInv_without [where xs = "allRequests ?p1"])
         (use rp Cons in \<open>auto simp: allRequests_def requestsInv_def\<close>)
    moreover have "\<forall>r2 \<in> set (mm_actionableMerges ?p1) \<union> set (mm_outstandingMerges ?p1).
           succeededLast (event # history) r2"
    proof
      fix r2 assume "r2 \<in> set (mm_actionableMerges ?p1) \<union> set (mm_outstandingMerges ?p1)"
      then have "r2 \<in> set (mm_actionableMerges p) \<union> set (mm_outstandingMerges p)"
        using Cons by auto
      with inv have "succeededLast history r2" by (simp add: historyInv_def)
      moreover have "event \<noteq> MigrationRequested r2" using ev by auto
      ultimately show "succeededLast (event # history) r2" by (rule succeededLast_other)
    qed
    moreover have "succeededLast history r" using inv Cons by (simp add: historyInv_def)
    ultimately show ?thesis using q ev by (auto simp: historyInv_def)
  qed
next
  case (ApplyActionResult action response)
  obtain failure' q' where app: "mm_applyActionResult action response p = (failure', q')"
    by (cases "mm_applyActionResult action response p")
  have rp: "requestsInv p" using inv by (simp add: historyInv_def)
  from mm_applyActionResult_effect [OF rp app]
  have rq: "requestsInv q'"
    and sub: "set (mm_actionableMerges q') \<union> set (mm_outstandingMerges q')
           \<subseteq> set (mm_actionableMerges p) \<union> set (mm_outstandingMerges p)
               \<union> (if failure' = None then set_option (migrationSucceeded action response p)
                    else {})"
    by simp_all
  have q: "q = q'" using call ApplyActionResult app
    by (auto simp: mm_call_def split: option.splits)
  have ev: "event = (if failure' = None
                     then (case migrationSucceeded action response p of
                             Some r \<Rightarrow> MigrationSucceeded r | None \<Rightarrow> NoEvent)
                     else NoEvent)"
    using call ApplyActionResult app
    by (auto simp: mm_call_def split: option.splits)
  have "\<forall>r \<in> set (mm_actionableMerges q) \<union> set (mm_outstandingMerges q).
           succeededLast (event # history) r"
  proof
    fix r assume "r \<in> set (mm_actionableMerges q) \<union> set (mm_outstandingMerges q)"
    with sub q have "r \<in> set (mm_actionableMerges p) \<union> set (mm_outstandingMerges p)
        \<or> (failure' = None \<and> migrationSucceeded action response p = Some r)"
      by (auto split: if_splits)
    then show "succeededLast (event # history) r"
    proof
      assume "r \<in> set (mm_actionableMerges p) \<union> set (mm_outstandingMerges p)"
      with inv have "succeededLast history r" by (simp add: historyInv_def)
      moreover have "event \<noteq> MigrationRequested r"
        using ev by (auto split: option.splits)
      ultimately show ?thesis by (rule succeededLast_other)
    next
      assume "failure' = None \<and> migrationSucceeded action response p = Some r"
      with ev show ?thesis by simp
    qed
  qed
  then have "historyInv (event # history) q" using rq q by (simp add: historyInv_def)
  moreover have "\<forall>r. event \<noteq> MergeEmitted r" using ev by (auto split: option.splits)
  ultimately show ?thesis by simp
qed

lemma mm_run_inOrder:
  assumes "historyInv history p"
  shows "emittedInOrder history (fst (mm_run p calls))"
  using assms
proof (induction calls arbitrary: history p)
  case Nil
  then show ?case by simp
next
  case (Cons step calls)
  obtain event failure q where call: "mm_call (fst step) (snd step) p = (event, failure, q)"
    by (cases "mm_call (fst step) (snd step) p")
  from mm_call_step [OF Cons.prems call]
  have inv: "historyInv (event # history) q"
    and ord: "\<forall>r. event = MergeEmitted r \<longrightarrow> succeededLast history r"
    by simp_all
  have here: "(case event of MergeEmitted request \<Rightarrow> succeededLast history request | _ \<Rightarrow> True)"
    using ord by (cases event) simp_all
  show ?case
    using call here Cons.IH [OF inv] by simp
qed

lemma emittedInOrder_nth:
  assumes "emittedInOrder history events" "i < length events" "events ! i = MergeEmitted r"
  shows "succeededLast (rev (take i events) @ history) r"
  using assms
proof (induction events arbitrary: history i)
  case Nil
  then show ?case by simp
next
  case (Cons event events)
  show ?case
  proof (cases i)
    case 0
    with Cons.prems show ?thesis by simp
  next
    case (Suc n)
    with Cons.prems have "emittedInOrder (event # history) events" "n < length events"
      "events ! n = MergeEmitted r"
      by simp_all
    from Cons.IH [OF this] Suc show ?thesis by simp
  qed
qed

lemma succeededLast_rev:
  assumes "succeededLast (rev events) r"
  shows "\<exists>j < length events. events ! j = MigrationSucceeded r
           \<and> (\<forall>k. j < k \<and> k < length events \<longrightarrow> events ! k \<noteq> MigrationRequested r)"
  using assms
proof (induction events rule: rev_induct)
  case Nil
  then show ?case by simp
next
  case (snoc event events)
  show ?case
  proof (cases "event = MigrationSucceeded r")
    case True
    then show ?thesis
      by (intro exI [of _ "length events"]) auto
  next
    case False
    with snoc.prems have ne: "event \<noteq> MigrationRequested r" and "succeededLast (rev events) r"
      by (auto split: if_splits)
    from snoc.IH [OF this(2)] obtain j where
      j: "j < length events" "events ! j = MigrationSucceeded r"
         "\<forall>k. j < k \<and> k < length events \<longrightarrow> events ! k \<noteq> MigrationRequested r"
      by blast
    have "\<forall>k. j < k \<and> k < length (events @ [event])
              \<longrightarrow> (events @ [event]) ! k \<noteq> MigrationRequested r"
    proof (intro allI impI)
      fix k assume k: "j < k \<and> k < length (events @ [event])"
      show "(events @ [event]) ! k \<noteq> MigrationRequested r"
      proof (cases "k < length events")
        case True
        with j(3) k show ?thesis by (simp add: nth_append)
      next
        case False
        with k have "k = length events" by simp
        with ne show ?thesis by simp
      qed
    qed
    with j(1,2) show ?thesis
      by (intro exI [of _ j]) (simp add: nth_append)
  qed
qed

lemma loadChunks_keys:
  assumes "loadChunks chunks n loaded = (res, ok)"
  shows "\<exists>k. map fst res = map fst loaded @ [n ..< n + k]"
  using assms
proof (induction chunks arbitrary: n loaded)
  case Nil
  then show ?case by (intro exI [of _ 0]) simp
next
  case (Cons chunk chunks)
  show ?case
  proof (cases "ct_estimatedSizeBytes chunk")
    case None
    with Cons.prems show ?thesis by (intro exI [of _ 0]) simp
  next
    case (Some sz)
    with Cons.prems Cons.IH obtain k where
      "map fst res = map fst (loaded @ [(n, \<lparr>cri_range = ct_range chunk, cri_shard = ct_shard chunk,
                             cri_estimatedSizeBytes = sz,
                             cri_busyInOperation = False\<rparr>)]) @ [Suc n ..< Suc n + k]"
      by fastforce
    then show ?thesis
      by (intro exI [of _ "Suc k"]) (simp add: upt_conv_Cons)
  qed
qed

lemma mm_build_historyInv:
  assumes "mm_build cat coll stats = Inr p"
  shows "historyInv [] p"
proof -
  from assms obtain nss uuid chunks infos zones threshold where
    p: "p = mm_construct nss uuid chunks infos zones threshold"
    by (auto simp: mm_build_def Let_def split: option.splits sum.splits)
  obtain loaded ok where l: "loadChunks chunks 0 [] = (loaded, ok)"
    by (cases "loadChunks chunks 0 []")
  from loadChunks_keys [OF l] have keys: "distinct (map fst loaded)" by auto
  have "mm_collectionChunks p = loaded" "mm_outstandingMigrations p = []"
    "mm_actionableMerges p = []" "mm_outstandingMerges p = []"
    unfolding p by (simp_all add: mm_construct_def mm_abort_def Let_def l)
  with keys show ?thesis
    by (simp add: historyInv_def requestsInv_def allRequests_def)
qed

subsection \<open>Phase transitions and the selection of migrations\<close>

lemma map_put_nonempty: "map_put k v m \<noteq> []"
  by (cases m) (auto split: if_splits)

lemma map_index_nonempty: "map_index k dflt f m \<noteq> []"
  by (simp add: map_index_def map_put_nonempty)

lemma stepLowerBound_suffix:
  "\<exists>consumed. before = consumed @ snd (stepLowerBound zones lower before)"
proof (induction before arbitrary: lower)
  case Nil
  then show ?case by simp
next
  case (Cons previous before)
  show ?case
  proof (cases "areConsecutive zones previous lower")
    case True
    from Cons [of previous] obtain consumed where
      "before = consumed @ snd (stepLowerBound zones previous before)" by blast
    then have "previous # before = (previous # consumed) @ snd (stepLowerBound zones previous before)"
      by simp
    with True show ?thesis by (metis stepLowerBound.simps(2))
  next
    case False
    then show ?thesis by (intro exI [of _ "[]"]) simp
  qed
qed

lemma stepLowerBound_same:
  assumes "\<not> length (snd (stepLowerBound zones lower before)) < length before"
  shows "snd (stepLowerBound zones lower before) = before"
proof -
  from stepLowerBound_suffix [of before zones lower] obtain consumed where
    c: "before = consumed @ snd (stepLowerBound zones lower before)" by blast
  then have "length before = length consumed + length (snd (stepLowerBound zones lower before))"
    by (metis length_append)
  with assms have "consumed = []" by simp
  with c show ?thesis by simp
qed

lemma mc_buildPending_keeps:
  "pending \<noteq> [] \<Longrightarrow> mc_buildPending zones chunks pending \<noteq> []"
proof (induction zones chunks pending rule: mc_buildPending.induct)
  case (1 zones pending)
  then show ?case by simp
next
  case (2 zones upper before pending)
  show ?case
    using 2 by (simp add: Let_def map_index_nonempty)
qed

lemma mc_buildPending_unsized:
  "\<exists>c \<in> set chunks. ct_estimatedSizeBytes c = None
     \<Longrightarrow> mc_buildPending zones chunks pending \<noteq> []"
proof (induction zones chunks pending rule: mc_buildPending.induct)
  case (1 zones pending)
  then show ?case by simp
next
  case (2 zones upper before pending)
  let ?before' = "snd (stepLowerBound zones upper before)"
  show ?case
  proof (cases "length ?before' < length before")
    case True
    then show ?thesis
      by (simp add: Let_def mc_buildPending_keeps map_index_nonempty)
  next
    case False
    then have same: "?before' = before" by (rule stepLowerBound_same)
    show ?thesis
    proof (cases "ct_estimatedSizeBytes upper = None")
      case True
      with False show ?thesis
        by (simp add: Let_def mc_buildPending_keeps map_index_nonempty)
    next
      case sized: False
      with "2.prems" have "\<exists>c \<in> set ?before'. ct_estimatedSizeBytes c = None"
        using same by auto
      from "2.IH" [OF refl refl this] False sized show ?thesis
        by (auto simp: Let_def)
    qed
  qed
qed

lemma loadChunks_ok:
  "snd (loadChunks chunks n loaded) \<longleftrightarrow> (\<forall>c \<in> set chunks. ct_estimatedSizeBytes c \<noteq> None)"
  by (induction chunks arbitrary: n loaded) (auto split: option.splits)

lemma mm_build_aborted:
  assumes "mm_build cat coll stats = Inr p"
  shows "mm_nextPhase p = (if mm_aborted p then kMergeChunks else kSplitChunks)
       \<and> (mm_aborted p \<longrightarrow> (\<exists>chunks. getCollectionChunks cat coll = Inr chunks
                                \<and> (\<exists>c \<in> set chunks. ct_estimatedSizeBytes c = None)))"
  using assms
  by (auto simp: mm_build_def mm_construct_def mm_abort_def Let_def loadChunks_ok
           split: option.splits sum.splits if_splits)

lemma mc_build_incomplete:
  assumes "getCollectionChunks cat coll = Inr chunks"
    and "\<exists>c \<in> set chunks. ct_estimatedSizeBytes c = None"
    and "mc_build cat coll = Inr p"
  shows "\<not> mc_isComplete p"
proof -
  from assms(1,3) obtain zones where
    "mc_pendingActionsByShards p = mc_buildPending zones (rev chunks) []"
    by (auto simp: mc_build_def split: option.splits)
  moreover have "mc_buildPending zones (rev chunks) [] \<noteq> []"
    using assms(2) by (intro mc_buildPending_unsized) simp
  ultimately show ?thesis by (simp add: mc_isComplete_def)
qed

lemma transitionWhileComplete_None:
  "transitionWhileComplete cat coll None = Some None"
  by (subst transitionWhileComplete.simps) simp

lemma transitionWhileComplete_incomplete:
  "\<not> isComplete phase \<Longrightarrow> transitionWhileComplete cat coll (Some phase) = Some (Some phase)"
  by (subst transitionWhileComplete.simps) simp

lemma transitionWhileComplete_complete:
  "isComplete phase \<Longrightarrow>
   transitionWhileComplete cat coll (Some phase)
     = transitionWhileComplete cat coll (transitionPhases cat coll (getNextPhase phase) True)"
  by (subst transitionWhileComplete.simps) simp

lemma transitionPhases_kFinished: "transitionPhases cat coll kFinished persist = None"
  by (simp add: transitionPhases_def)

lemma transitionPhases_kSplitChunks:
  assumes "transitionPhases cat coll kSplitChunks persist = Some phase"
  shows "getNextPhase phase = kFinished"
  using assms
  by (auto simp: transitionPhases_def sc_build_def sc_getNextPhase_def
           split: if_splits sum.splits option.splits)

lemma transitionPhases_kMergeChunks:
  assumes "transitionPhases cat coll kMergeChunks persist = Some phase"
  shows "\<exists>p. phase = MergeChunks p \<and> mc_build cat coll = Inr p
            \<and> getNextPhase phase = kMoveAndMergeChunks"
  using assms
  by (auto simp: transitionPhases_def mc_build_def mc_getNextPhase_def
           split: if_splits sum.splits option.splits)

lemma transitionPhases_kMoveAndMergeChunks:
  assumes "transitionPhases cat coll kMoveAndMergeChunks persist = Some phase"
  shows "\<exists>p stats. phase = MoveAndMergeChunks p \<and> mm_build cat coll stats = Inr p"
  using assms
  by (auto simp: transitionPhases_def split: if_splits sum.splits option.splits)

lemma ends_kFinished:
  "\<exists>r. transitionWhileComplete cat coll (transitionPhases cat coll kFinished True) = Some r"
  by (simp add: transitionPhases_kFinished transitionWhileComplete_None)

lemma ends_kSplitChunks:
  "\<exists>r. transitionWhileComplete cat coll (transitionPhases cat coll kSplitChunks True) = Some r"
proof (cases "transitionPhases cat coll kSplitChunks True")
  case None
  then show ?thesis by (simp add: transitionWhileComplete_None)
next
  case (Some phase)
  show ?thesis
  proof (cases "isComplete phase")
    case False
    with Some show ?thesis by (simp add: transitionWhileComplete_incomplete)
  next
    case True
    with Some transitionPhases_kSplitChunks [OF Some] ends_kFinished [of cat coll]
    show ?thesis by (simp add: transitionWhileComplete_complete)
  qed
qed

lemma ends_kMergeChunks_unsized:
  assumes "getCollectionChunks cat coll = Inr chunks"
    and "\<exists>c \<in> set chunks. ct_estimatedSizeBytes c = None"
  shows "\<exists>r. transitionWhileComplete cat coll (transitionPhases cat coll kMergeChunks True) = Some r"
proof (cases "transitionPhases cat coll kMergeChunks True")
  case None
  then show ?thesis by (simp add: transitionWhileComplete_None)
next
  case (Some phase)
  from transitionPhases_kMergeChunks [OF Some] obtain p where
    p: "phase = MergeChunks p" "mc_build cat coll = Inr p" by blast
  from mc_build_incomplete [OF assms p(2)] have "\<not> isComplete phase" using p(1) by simp
  with Some show ?thesis by (simp add: transitionWhileComplete_incomplete)
qed

lemma ends_kMoveAndMergeChunks:
  "\<exists>r. transitionWhileComplete cat coll (transitionPhases cat coll kMoveAndMergeChunks True)
         = Some r"
proof (cases "transitionPhases cat coll kMoveAndMergeChunks True")
  case None
  then show ?thesis by (simp add: transitionWhileComplete_None)
next
  case (Some phase)
  from transitionPhases_kMoveAndMergeChunks [OF Some] obtain p stats where
    p: "phase = MoveAndMergeChunks p" "mm_build cat coll stats = Inr p" by blast
  note b = mm_build_aborted [OF p(2)]
  show ?thesis
  proof (cases "isComplete phase")
    case False
    with Some show ?thesis by (simp add: transitionWhileComplete_incomplete)
  next
    case True
    show ?thesis
    proof (cases "mm_aborted p")
      case True
      with b obtain chunks where "getCollectionChunks cat coll = Inr chunks"
        "\<exists>c \<in> set chunks. ct_estimatedSizeBytes c = None" by auto
      from ends_kMergeChunks_unsized [OF this] b True \<open>isComplete phase\<close> Some p(1)
      show ?thesis by (simp add: transitionWhileComplete_complete mm_getNextPhase_def)
    next
      case False
      with ends_kSplitChunks [of cat coll] b \<open>isComplete phase\<close> Some p(1)
      show ?thesis by (simp add: transitionWhileComplete_complete mm_getNextPhase_def)
    qed
  qed
qed

lemma ends_kMergeChunks:
  "\<exists>r. transitionWhileComplete cat coll (transitionPhases cat coll kMergeChunks True) = Some r"
proof (cases "transitionPhases cat coll kMergeChunks True")
  case None
  then show ?thesis by (simp add: transitionWhileComplete_None)
next
  case (Some phase)
  show ?thesis
  proof (cases "isComplete phase")
    case False
    with Some show ?thesis by (simp add: transitionWhileComplete_incomplete)
  next
    case True
    with Some transitionPhases_kMergeChunks [OF Some] ends_kMoveAndMergeChunks [of cat coll]
    show ?thesis by (auto simp: transitionWhileComplete_complete)
  qed
qed

lemma transitionWhileComplete_ends:
  "\<exists>r. transitionWhileComplete cat coll current = Some r"
proof (cases current)
  case None
  then show ?thesis by (simp add: transitionWhileComplete_None)
next
  case (Some phase)
  show ?thesis
  proof (cases "isComplete phase")
    case False
    with Some show ?thesis by (simp add: transitionWhileComplete_incomplete)
  next
    case True
    have "\<exists>r. transitionWhileComplete cat coll
                 (transitionPhases cat coll (getNextPhase phase) True) = Some r"
      using ends_kFinished ends_kSplitChunks ends_kMoveAndMergeChunks ends_kMergeChunks
      by (cases "getNextPhase phase") simp_all
    with True Some show ?thesis by (simp add: transitionWhileComplete_complete)
  qed
qed

lemma refreshDefragmentationPhaseFor_ends:
  "\<exists>r. refreshDefragmentationPhaseFor cat uuid phase = Some r"
  using transitionWhileComplete_ends
  by (auto simp: refreshDefragmentationPhaseFor_def split: option.splits)

lemma transitionWhileComplete_result:
  assumes "transitionWhileComplete cat coll current = Some result"
  shows "\<forall>phase. result = Some phase \<longrightarrow>
      current = Some phase \<or> (\<exists>e. transitionPhases cat coll e True = Some phase)"
proof (rule transitionWhileComplete.raw_induct
    [where P = "\<lambda>cat coll current result. \<forall>phase. result = Some phase \<longrightarrow>
      current = Some phase \<or> (\<exists>e. transitionPhases cat coll e True = Some phase)",
     OF _ assms])
  fix loop cat coll current result
  assume IH: "\<And>cat coll current result. loop cat coll current = Some result \<Longrightarrow>
      \<forall>phase. result = Some phase \<longrightarrow>
        current = Some phase \<or> (\<exists>e. transitionPhases cat coll e True = Some phase)"
    and body: "(case current of
                  None \<Rightarrow> Some None
                | Some phase \<Rightarrow>
                    if isComplete phase
                    then loop cat coll (transitionPhases cat coll (getNextPhase phase) True)
                    else Some (Some phase)) = Some result"
  show "\<forall>phase. result = Some phase \<longrightarrow>
      current = Some phase \<or> (\<exists>e. transitionPhases cat coll e True = Some phase)"
  proof (cases current)
    case None
    with body show ?thesis by auto
  next
    case (Some ph)
    show ?thesis
    proof (cases "isComplete ph")
      case False
      with body Some show ?thesis by auto
    next
      case True
      with body Some
      have "loop cat coll (transitionPhases cat coll (getNextPhase ph) True) = Some result"
        by simp
      from IH [OF this] show ?thesis by blast
    qed
  qed
qed

lemma loadChunks_shards:
  assumes "loadChunks chunks n loaded = (res, ok)"
  shows "cri_shard ` snd ` set res \<subseteq> cri_shard ` snd ` set loaded \<union> ct_shard ` set chunks"
  using assms
proof (induction chunks arbitrary: n loaded)
  case Nil
  then show ?case by auto
next
  case (Cons chunk chunks)
  show ?case
  proof (cases "ct_estimatedSizeBytes chunk")
    case None
    with Cons.prems show ?thesis by auto
  next
    case (Some sz)
    with Cons.prems have
      "loadChunks chunks (Suc n)
         (loaded @ [(n, \<lparr>cri_range = ct_range chunk, cri_shard = ct_shard chunk,
                             cri_estimatedSizeBytes = sz,
                             cri_busyInOperation = False\<rparr>)]) = (res, ok)"
      by simp
    from Cons.IH [OF this] show ?thesis by auto
  qed
qed

lemma indexSmallChunks_sound:
  assumes "distinct (map fst (before @ rest))"
    and "\<forall>s l. map_of small s = Some l
           \<longrightarrow> distinct l \<and> (\<forall>it \<in> set l. \<exists>c. (it, c) \<in> set before \<and> cri_shard c = s)"
  shows "\<forall>s l. map_of (indexSmallChunks threshold rest small) s = Some l
           \<longrightarrow> distinct l
               \<and> (\<forall>it \<in> set l. \<exists>c. (it, c) \<in> set (before @ rest) \<and> cri_shard c = s)"
  using assms
proof (induction rest arbitrary: before small)
  case Nil
  then show ?case by simp
next
  case (Cons kc rest)
  let ?small' = "if cri_estimatedSizeBytes (snd kc) \<le>s threshold
                 then map_index (cri_shard (snd kc)) [] (\<lambda>l. l @ [fst kc]) small
                 else small"
  have keys: "distinct (map fst ((before @ [kc]) @ rest))" using Cons.prems(1) by simp
  have fresh: "\<And>c. (fst kc, c) \<notin> set before"
  proof
    fix c assume "(fst kc, c) \<in> set before"
    then have "fst (fst kc, c) \<in> fst ` set before" by (rule imageI)
    then have "fst kc \<in> fst ` set before" by simp
    with Cons.prems(1) show False by auto
  qed
  have step: "\<forall>s l. map_of ?small' s = Some l
           \<longrightarrow> distinct l
               \<and> (\<forall>it \<in> set l. \<exists>c. (it, c) \<in> set (before @ [kc]) \<and> cri_shard c = s)"
  proof (intro allI impI)
    fix s l assume l: "map_of ?small' s = Some l"
    show "distinct l \<and> (\<forall>it \<in> set l. \<exists>c. (it, c) \<in> set (before @ [kc]) \<and> cri_shard c = s)"
    proof (cases "cri_estimatedSizeBytes (snd kc) \<le>s threshold \<and> s = cri_shard (snd kc)")
      case False
      with l have "map_of small s = Some l"
        by (auto simp: map_of_map_index split: if_splits)
      with Cons.prems(2) show ?thesis by fastforce
    next
      case True
      define old where "old = (case map_of small s of None \<Rightarrow> [] | Some v \<Rightarrow> v)"
      have l': "l = old @ [fst kc]"
        using l True by (simp add: map_of_map_index old_def)
      have old: "distinct old \<and> (\<forall>it \<in> set old. \<exists>c. (it, c) \<in> set before \<and> cri_shard c = s)"
        using Cons.prems(2) by (auto simp: old_def split: option.splits)
      have notin: "fst kc \<notin> set old" using old fresh by blast
      have "\<forall>it \<in> set (old @ [fst kc]).
              \<exists>c. (it, c) \<in> set (before @ [kc]) \<and> cri_shard c = s"
      proof
        fix it assume "it \<in> set (old @ [fst kc])"
        then consider "it \<in> set old" | "it = fst kc" by auto
        then show "\<exists>c. (it, c) \<in> set (before @ [kc]) \<and> cri_shard c = s"
        proof cases
          case 1
          with old obtain c where "(it, c) \<in> set before" "cri_shard c = s" by blast
          then show ?thesis by (intro exI [of _ c]) simp
        next
          case 2
          with True show ?thesis by (intro exI [of _ "snd kc"]) simp
        qed
      qed
      with notin old show ?thesis unfolding l' by simp
    qed
  qed
  from Cons.IH [OF keys step] show ?case by simp
qed

lemma map_of_map_values:
  "map_of (map (\<lambda>entry. (fst entry, g (snd entry))) m) k = map_option g (map_of m k)"
  by (induction m) auto

lemma mm_build_sound:
  assumes "mm_build cat coll stats = Inr p"
  shows "smallIndexSound (mm_smallChunksByShard p) (mm_collectionChunks p)
       \<and> (\<exists>chunks. cat_getChunks cat coll = Some chunks
              \<and> cri_shard ` snd ` set (mm_collectionChunks p) \<subseteq> ct_shard ` set chunks)"
proof -
  from assms obtain chunks infos zones threshold where
    c: "cat_getChunks cat coll = Some chunks"
    and p: "p = mm_construct (coll_nss coll) (coll_uuid coll) chunks infos zones threshold"
    by (auto simp: mm_build_def getCollectionChunks_def Let_def split: option.splits sum.splits)
  obtain loaded ok where l: "loadChunks chunks 0 [] = (loaded, ok)"
    by (cases "loadChunks chunks 0 []")
  from loadChunks_keys [OF l] have keys: "distinct (map fst loaded)" by auto
  have ch: "mm_collectionChunks p = loaded"
    unfolding p by (simp add: mm_construct_def mm_abort_def Let_def l)
  have shards: "cri_shard ` snd ` set loaded \<subseteq> ct_shard ` set chunks"
    using loadChunks_shards [OF l] by simp
  have "smallIndexSound (mm_smallChunksByShard p) loaded"
  proof (cases ok)
    case False
    then have "mm_smallChunksByShard p = []"
      unfolding p by (simp add: mm_construct_def mm_abort_def Let_def l)
    then show ?thesis by (simp add: smallIndexSound_def)
  next
    case True
    let ?idx = "indexSmallChunks threshold loaded []"
    have sm: "mm_smallChunksByShard p
        = map (\<lambda>entry. (fst entry, sort_key (sizeOfIterator loaded) (snd entry))) ?idx"
      unfolding p using True by (simp add: mm_construct_def Let_def l)
    have idx: "\<forall>s l. map_of ?idx s = Some l
           \<longrightarrow> distinct l \<and> (\<forall>it \<in> set l. \<exists>c. (it, c) \<in> set ([] @ loaded) \<and> cri_shard c = s)"
      by (rule indexSmallChunks_sound) (use keys in simp_all)
    show ?thesis
      unfolding smallIndexSound_def sm
    proof (intro allI impI)
      fix s l
      assume "map_of (map (\<lambda>entry. (fst entry, sort_key (sizeOfIterator loaded) (snd entry)))
                        ?idx) s = Some l"
      then obtain l0 where l0: "map_of ?idx s = Some l0"
        "l = sort_key (sizeOfIterator loaded) l0"
        by (auto simp: map_of_map_values)
      from idx l0(1) have d: "distinct l0"
        and m: "\<forall>it \<in> set l0. \<exists>c. (it, c) \<in> set loaded \<and> cri_shard c = s"
        by auto
      have "\<forall>it \<in> set l0. \<exists>c. map_of loaded it = Some c \<and> cri_shard c = s"
      proof
        fix it assume "it \<in> set l0"
        with m obtain c where c: "(it, c) \<in> set loaded" "cri_shard c = s" by blast
        from keys c(1) have "map_of loaded it = Some c" by (rule map_of_is_SomeI)
        with c(2) show "\<exists>c. map_of loaded it = Some c \<and> cri_shard c = s" by blast
      qed
      with d show "distinct l \<and> (\<forall>it \<in> set l. \<exists>c. map_of loaded it = Some c \<and> cri_shard c = s)"
        unfolding l0(2) by simp
    qed
  qed
  with ch c shards show ?thesis by simp
qed

lemma popShards_shrunk:
  assumes "popShards (p\<lparr>mm_smallChunksByShard := small'\<rparr>) usedShards res usedShards' p'"
    and "smallShrinks (mm_smallChunksByShard p) small'"
  shows "popShards p usedShards res usedShards' p'"
proof -
  have "smallIndexSound (mm_smallChunksByShard p) (mm_collectionChunks p)
        \<Longrightarrow> smallIndexSound small' (mm_collectionChunks p)"
    using assms(2) by (auto intro: smallIndexSound_shrinks)
  with assms(1) show ?thesis unfolding popShards_def by auto
qed

lemma popShards_same:
  assumes "res = Inr None \<or> (\<exists>e. res = Inl e)"
  shows "popShards p usedShards res usedShards p"
  using assms by (auto simp: popShards_def)

lemma updateChunk_shards:
  assumes "\<And>c. cri_shard (f c) = cri_shard c"
  shows "cri_shard ` snd ` set (updateChunk it f chunks) = cri_shard ` snd ` set chunks"
proof -
  have "map (cri_shard \<circ> snd) (updateChunk it f chunks) = map (cri_shard \<circ> snd) chunks"
    using assms by (induction chunks) (auto simp: updateChunk_def)
  then have "set (map (cri_shard \<circ> snd) (updateChunk it f chunks))
               = set (map (cri_shard \<circ> snd) chunks)" by simp
  then show ?thesis by (simp add: image_comp)
qed

lemma popShards_chosen:
  assumes cand: "map_of (mm_collectionChunks p) (fst cand) = Some (snd cand)"
    and tgt: "target \<in> set (mm_collectionChunks p)" "cri_shard (snd target) \<notin> usedShards"
    and idx: "map_of (mm_smallChunksByShard p) shardId = Some l" "fst cand \<in> set l"
      "shardId \<notin> usedShards"
    and p1: "p1 = p\<lparr>mm_collectionChunks :=
                 updateChunk (fst target) (\<lambda>c. c\<lparr>cri_busyInOperation := True\<rparr>)
                   (updateChunk (fst cand) (\<lambda>c. c\<lparr>cri_busyInOperation := True\<rparr>)
                      (mm_collectionChunks p))\<rparr>"
    and used1: "usedShards1 = insert (cri_shard (snd target))
                                (insert (cri_shard (snd cand)) usedShards)"
  shows "popShards p usedShards (Inl e) usedShards1 p1"
    and "mig_from m = cri_shard (snd cand) \<Longrightarrow> mig_to m = cri_shard (snd target) \<Longrightarrow>
         popShards p usedShards (Inr (Some m)) usedShards1
           (p1\<lparr>mm_outstandingMigrations := outstanding\<rparr>)"
proof -
  have cin: "(fst cand, snd cand) \<in> set (mm_collectionChunks p)"
    using cand by (rule map_of_SomeD)
  have s1: "cri_shard (snd cand) \<in> cri_shard ` snd ` set (mm_collectionChunks p)"
    using cin by force
  have s2: "cri_shard (snd target) \<in> cri_shard ` snd ` set (mm_collectionChunks p)"
    using tgt(1) by force
  have sh: "cri_shard ` snd ` set (mm_collectionChunks p1)
              = cri_shard ` snd ` set (mm_collectionChunks p)"
    unfolding p1 by (simp add: updateChunk_shards)
  have sound: "smallIndexSound (mm_smallChunksByShard p) (mm_collectionChunks p)
        \<Longrightarrow> smallIndexSound (mm_smallChunksByShard p1) (mm_collectionChunks p1)"
  proof -
    assume a: "smallIndexSound (mm_smallChunksByShard p) (mm_collectionChunks p)"
    have "smallIndexSound (mm_smallChunksByShard p) (mm_collectionChunks p1)"
      using a
      by (rule smallIndexSound_chunks) (auto simp: p1 map_of_updateChunk)
    then show ?thesis by (simp add: p1)
  qed
  have from_new: "smallIndexSound (mm_smallChunksByShard p) (mm_collectionChunks p)
        \<Longrightarrow> cri_shard (snd cand) \<notin> usedShards"
  proof -
    assume a: "smallIndexSound (mm_smallChunksByShard p) (mm_collectionChunks p)"
    with idx(1,2) cand have "cri_shard (snd cand) = shardId"
      unfolding smallIndexSound_def by fastforce
    with idx(3) show ?thesis by simp
  qed
  show "popShards p usedShards (Inl e) usedShards1 p1"
    unfolding popShards_def using s1 s2 sh sound used1 by auto
  show "popShards p usedShards (Inr (Some m)) usedShards1
           (p1\<lparr>mm_outstandingMigrations := outstanding\<rparr>)"
    if m: "mig_from m = cri_shard (snd cand)" "mig_to m = cri_shard (snd target)"
    unfolding popShards_def using s1 s2 sh sound used1 m tgt(2) from_new by auto
qed

lemma popNextMigrationFrom_shards:
  assumes "popNextMigrationFrom cat order usedShards p = (res, usedShards', p')"
  shows "popShards p usedShards res usedShards' p'"
  using assms
proof (induction cat order usedShards p rule: popNextMigrationFrom.induct)
  case (1 cat usedShards p)
  then show ?case by (auto simp: popShards_same)
next
  case (2 cat shardId rest usedShards p)
  show ?case
  proof (cases "shardId \<in> usedShards")
    case True
    then have "popNextMigrationFrom cat rest usedShards p = (res, usedShards', p')"
      using "2.prems" by simp
    from "2.IH"(1) [OF True this] show ?thesis .
  next
    case False
    show ?thesis
    proof (cases "findNextSmallChunkInShard shardId usedShards p")
      case (Inl e)
      with "2.prems" False show ?thesis by (auto simp: popShards_same)
    next
      case (Inr found)
      obtain q r where found: "found = (q, r)" by (cases found)
      obtain small' where q: "q = p\<lparr>mm_smallChunksByShard := small'\<rparr>"
        and shr: "smallShrinks (mm_smallChunksByShard p) small'"
        using findNextSmallChunkInShard_small [of shardId usedShards p q r] Inr found by auto
      show ?thesis
      proof (cases r)
        case None
        have sn: "snd found = None" using found None by simp
        have "popNextMigrationFrom cat rest usedShards (fst found) = (res, usedShards', p')"
          using "2.prems" False Inr found None by simp
        from "2.IH"(2) [OF False Inr sn this] found
        have "popShards q usedShards res usedShards' p'" by simp
        then show ?thesis using shr unfolding q by (rule popShards_shrunk)
      next
        case (Some choice)
        obtain cand sibs where choice: "choice = (cand, sibs)" by (cases choice)
        have fnd: "findNextSmallChunkInShard shardId usedShards p = Inr (q, Some (cand, sibs))"
          using Inr found Some choice by simp
        from findNextSmallChunkInShard_choice [OF fnd] obtain l allSiblings where
          c: "map_of (mm_smallChunksByShard p) shardId = Some l" "fst cand \<in> set l"
             "map_of (mm_collectionChunks p) (fst cand) = Some (snd cand)"
             "getChunkSiblings p (fst cand) (snd cand) = Inr allSiblings"
             "sibs = filter (\<lambda>sibling. \<not> cri_busyInOperation (snd sibling)
                                  \<and> cri_shard (snd sibling) \<notin> usedShards) allSiblings"
          by auto
        show ?thesis
        proof (cases "chooseTargetSibling q (snd cand) sibs")
          case failed: (Inl e)
          with "2.prems" False fnd have "res = Inl e" "p' = q" "usedShards' = usedShards"
            by simp_all
          then have "popShards q usedShards res usedShards' p'" by (simp add: popShards_same)
          then show ?thesis using shr unfolding q by (rule popShards_shrunk)
        next
          case chosen: (Inr target)
          have tin: "target \<in> set sibs" using chosen by (rule chooseTargetSibling_mem)
          then have t1: "target \<in> set allSiblings" "cri_shard (snd target) \<notin> usedShards"
            using c(5) by auto
          have tl: "target \<in> set (mm_collectionChunks p)"
            using getChunkSiblings_mem [OF c(4) t1(1)] .
          define p1 where "p1 = p\<lparr>mm_collectionChunks :=
                 updateChunk (fst target) (\<lambda>c. c\<lparr>cri_busyInOperation := True\<rparr>)
                   (updateChunk (fst cand) (\<lambda>c. c\<lparr>cri_busyInOperation := True\<rparr>)
                      (mm_collectionChunks p))\<rparr>"
          define used1 where "used1 = insert (cri_shard (snd target))
                                (insert (cri_shard (snd cand)) usedShards)"
          have q1: "q\<lparr>mm_collectionChunks :=
                 updateChunk (fst target) (\<lambda>c. c\<lparr>cri_busyInOperation := True\<rparr>)
                   (updateChunk (fst cand) (\<lambda>c. c\<lparr>cri_busyInOperation := True\<rparr>)
                      (mm_collectionChunks q))\<rparr> = p1\<lparr>mm_smallChunksByShard := small'\<rparr>"
            by (simp add: q p1_def)
          show ?thesis
          proof (cases "getShardVersion cat (cri_shard (snd cand)) (mm_uuid q)")
            case noVersion: (Inl e)
            with "2.prems" False fnd chosen
            have r: "res = Inl e" "p' = p1\<lparr>mm_smallChunksByShard := small'\<rparr>"
              "usedShards' = used1"
              by (simp_all add: Let_def q1 used1_def)
            have base: "popShards p usedShards (Inl e) used1 p1"
              by (rule popShards_chosen(1) [OF c(3) tl t1(2) c(1,2) False p1_def used1_def])
            have "popShards p usedShards (Inl e) used1 (p1\<lparr>mm_smallChunksByShard := small'\<rparr>)"
              using base shr
              by (auto simp: popShards_def p1_def intro: smallIndexSound_shrinks)
            with r show ?thesis by simp
          next
            case version: (Inr v)
            from "2.prems" False fnd chosen version
            have "\<exists>m outstanding. res = Inr (Some m)
                    \<and> mig_from m = cri_shard (snd cand) \<and> mig_to m = cri_shard (snd target)
                    \<and> usedShards' = used1
                    \<and> p' = p1\<lparr>mm_smallChunksByShard := small',
                                  mm_outstandingMigrations := outstanding\<rparr>"
              by (auto simp: Let_def q1 used1_def asMigrateInfo_def)
            then obtain m outstanding where
              r: "res = Inr (Some m)" "usedShards' = used1"
              and m: "mig_from m = cri_shard (snd cand)" "mig_to m = cri_shard (snd target)"
              and p': "p' = p1\<lparr>mm_smallChunksByShard := small',
                              mm_outstandingMigrations := outstanding\<rparr>"
              by blast
            have base: "popShards p usedShards (Inr (Some m)) used1
                          (p1\<lparr>mm_outstandingMigrations := outstanding\<rparr>)"
              by (rule popShards_chosen(2) [OF c(3) tl t1(2) c(1,2) False p1_def used1_def m])
            have "popShards p usedShards (Inr (Some m)) used1 p'"
              using base shr unfolding p'
              by (auto simp: popShards_def p1_def intro: smallIndexSound_shrinks)
            with r show ?thesis by simp
          qed
        qed
      qed
    qed
  qed
qed

lemma popNextMigration_shards:
  assumes "popNextMigration cat usedShards phase = (res, usedShards', phase')"
  shows "phasePop phase usedShards res usedShards' phase'"
proof (cases phase)
  case (MergeChunks p)
  with assms show ?thesis by (auto simp: phasePop_def mc_popNextMigration_def)
next
  case (SplitChunks p)
  with assms show ?thesis by (auto simp: phasePop_def sc_popNextMigration_def)
next
  case (MoveAndMergeChunks p)
  with assms obtain p' where
    pop: "mm_popNextMigration cat usedShards p = (res, usedShards', p')"
    and ph: "phase' = MoveAndMergeChunks p'"
    by (auto split: prod.splits)
  from pop have "popShards p usedShards res usedShards' p'"
    unfolding mm_popNextMigration_def by (rule popNextMigrationFrom_shards)
  then show ?thesis
    unfolding phasePop_def popShards_def MoveAndMergeChunks ph by simp
qed

lemma transitionPhases_shards:
  assumes "transitionPhases cat coll e persist = Some phase"
  shows "phaseSound phase
       \<and> (\<exists>chunks. cat_getChunks cat coll = Some chunks
                \<and> chunkShards phase \<subseteq> ct_shard ` set chunks)"
proof (cases e)
  case kMergeChunks
  with assms show ?thesis
    by (auto simp: transitionPhases_def mc_build_def getCollectionChunks_def
             split: if_splits sum.splits option.splits)
next
  case kMoveAndMergeChunks
  from transitionPhases_kMoveAndMergeChunks [OF assms [unfolded kMoveAndMergeChunks]]
  obtain p stats where p: "phase = MoveAndMergeChunks p" "mm_build cat coll stats = Inr p"
    by blast
  from mm_build_sound [OF p(2)] p(1) show ?thesis by simp
next
  case kSplitChunks
  with assms show ?thesis
    by (auto simp: transitionPhases_def sc_build_def
             split: if_splits sum.splits option.splits)
next
  case kFinished
  with assms show ?thesis by (simp add: transitionPhases_kFinished)
qed

lemma refreshDefragmentationPhaseFor_shards:
  assumes "refreshDefragmentationPhaseFor cat uuid phase = Some (Inr (Some phase'))"
  shows "chunkShards phase' \<subseteq> chunkShards phase \<union> catalogShards cat uuid
       \<and> (phaseSound phase \<longrightarrow> phaseSound phase')"
proof (cases "isComplete phase")
  case False
  with assms show ?thesis by (simp add: refreshDefragmentationPhaseFor_def)
next
  case True
  with assms obtain coll where
    coll: "cat_getCollection cat uuid = Some coll"
    and w: "transitionWhileComplete cat coll (Some phase) = Some (Some phase')"
    by (auto simp: refreshDefragmentationPhaseFor_def split: option.splits)
  from transitionWhileComplete_result [OF w]
  consider "phase' = phase" | e where "transitionPhases cat coll e True = Some phase'"
    by auto
  then show ?thesis
  proof cases
    case 1
    then show ?thesis by simp
  next
    case 2
    from transitionPhases_shards [OF 2] coll show ?thesis
      by (auto simp: catalogShards_def)
  qed
qed

lemma freshTargets_append:
  "freshTargets usedShards (a @ b)
     \<longleftrightarrow> freshTargets usedShards a \<and> freshTargets (usedShards \<union> shardsOf a) b"
proof (induction a arbitrary: usedShards)
  case Nil
  then show ?case by (simp add: shardsOf_def)
next
  case (Cons m a)
  have "insert (mig_to m) (insert (mig_from m) usedShards) \<union> shardsOf a
          = usedShards \<union> shardsOf (m # a)"
    by (auto simp: shardsOf_def)
  with Cons [of "insert (mig_to m) (insert (mig_from m) usedShards)"] show ?case by simp
qed

lemma freshShards_append:
  "freshShards usedShards (a @ b)
     \<longleftrightarrow> freshShards usedShards a \<and> freshShards (usedShards \<union> shardsOf a) b"
proof (induction a arbitrary: usedShards)
  case Nil
  then show ?case by (simp add: shardsOf_def)
next
  case (Cons m a)
  have "insert (mig_to m) (insert (mig_from m) usedShards) \<union> shardsOf a
          = usedShards \<union> shardsOf (m # a)"
    by (auto simp: shardsOf_def)
  with Cons [of "insert (mig_to m) (insert (mig_from m) usedShards)"] show ?case by simp
qed

lemma freshTargets_antimono:
  "A \<subseteq> B \<Longrightarrow> freshTargets B ms \<Longrightarrow> freshTargets A ms"
proof (induction ms arbitrary: A B)
  case Nil
  then show ?case by simp
next
  case (Cons m ms)
  have "insert (mig_to m) (insert (mig_from m) A) \<subseteq> insert (mig_to m) (insert (mig_from m) B)"
    using Cons.prems(1) by auto
  from Cons.IH [OF this] Cons.prems show ?case by auto
qed

lemma freshShards_antimono:
  "A \<subseteq> B \<Longrightarrow> freshShards B ms \<Longrightarrow> freshShards A ms"
proof (induction ms arbitrary: A B)
  case Nil
  then show ?case by simp
next
  case (Cons m ms)
  have "insert (mig_to m) (insert (mig_from m) A) \<subseteq> insert (mig_to m) (insert (mig_from m) B)"
    using Cons.prems(1) by auto
  from Cons.IH [OF this] Cons.prems show ?case by auto
qed

lemma freshTargets_distinct:
  "freshTargets usedShards ms
     \<Longrightarrow> distinct (map mig_to ms) \<and> mig_to ` set ms \<inter> usedShards = {}"
proof (induction ms arbitrary: usedShards)
  case Nil
  then show ?case by simp
next
  case (Cons m ms)
  from Cons.prems have "freshTargets (insert (mig_to m) (insert (mig_from m) usedShards)) ms"
    and n: "mig_to m \<notin> usedShards"
    by simp_all
  from Cons.IH [OF this(1)] n show ?case by auto
qed

lemma freshShards_distinct:
  "freshShards usedShards ms
     \<Longrightarrow> distinct (map mig_from ms) \<and> mig_from ` set ms \<inter> usedShards = {}
         \<and> freshTargets usedShards ms"
proof (induction ms arbitrary: usedShards)
  case Nil
  then show ?case by simp
next
  case (Cons m ms)
  from Cons.prems have "freshShards (insert (mig_to m) (insert (mig_from m) usedShards)) ms"
    and n: "mig_from m \<notin> usedShards" "mig_to m \<notin> usedShards"
    by simp_all
  from Cons.IH [OF this(1)] n show ?case by auto
qed

lemma knownShards_Cons:
  "knownShards cat (entry # states)
     = chunkShards (snd entry) \<union> catalogShards cat (fst entry) \<union> knownShards cat states"
  by (auto simp: knownShards_def)

lemma knownShards_append:
  "knownShards cat (a @ b) = knownShards cat a \<union> knownShards cat b"
  by (auto simp: knownShards_def)

lemma statesSound_simps:
  "statesSound []" "statesSound (entry # states) \<longleftrightarrow> phaseSound (snd entry) \<and> statesSound states"
  "statesSound (a @ b) \<longleftrightarrow> statesSound a \<and> statesSound b"
  by (auto simp: statesSound_def)

lemma passResult_step:
  assumes r: "passResult cat keptNext rest usedNext (ms @ pre) r"
    and used: "usedShards \<subseteq> usedNext" "usedNext \<subseteq> usedShards \<union> knownShards cat [entry]"
    and keptNext: "knownShards cat keptNext \<subseteq> knownShards cat kept \<union> knownShards cat [entry]"
    and pre: "shardsOf pre \<subseteq> usedNext" "freshTargets usedShards pre"
      "phaseSound (snd entry) \<longrightarrow> freshShards usedShards pre"
    and sound: "statesSound kept \<and> phaseSound (snd entry) \<longrightarrow> statesSound keptNext"
  shows "passResult cat kept (entry # rest) usedShards ms r"
proof -
  let ?used' = "fst (snd (snd r))"
  from r obtain new where
    a: "usedNext \<subseteq> ?used'" "?used' \<subseteq> usedNext \<union> knownShards cat rest"
       "knownShards cat (fst (snd r)) \<subseteq> knownShards cat keptNext \<union> knownShards cat rest"
       "snd (snd (snd r)) = (ms @ pre) @ new" "shardsOf new \<subseteq> ?used'"
       "freshTargets usedNext new" "statesSound rest \<longrightarrow> freshShards usedNext new"
       "statesSound keptNext \<and> statesSound rest \<longrightarrow> statesSound (fst (snd r))"
    unfolding passResult_def by blast
  have ks: "knownShards cat (entry # rest) = knownShards cat [entry] \<union> knownShards cat rest"
    by (auto simp: knownShards_def)
  have sub: "usedShards \<union> shardsOf pre \<subseteq> usedNext" using used(1) pre(1) by auto
  have 1: "usedShards \<subseteq> ?used'" using used(1) a(1) by auto
  have 2: "?used' \<subseteq> usedShards \<union> knownShards cat (entry # rest)"
    using a(2) used(2) unfolding ks by auto
  have 3: "knownShards cat (fst (snd r)) \<subseteq> knownShards cat kept \<union> knownShards cat (entry # rest)"
    using a(3) keptNext unfolding ks by auto
  have 4: "snd (snd (snd r)) = ms @ (pre @ new)" using a(4) by simp
  have 5: "shardsOf (pre @ new) \<subseteq> ?used'"
    using pre(1) a(1,5) by (auto simp: shardsOf_def)
  have 6: "freshTargets usedShards (pre @ new)"
    using pre(2) freshTargets_antimono [OF sub a(6)] by (simp add: freshTargets_append)
  have 7: "statesSound (entry # rest) \<longrightarrow> freshShards usedShards (pre @ new)"
    using pre(3) a(7) freshShards_antimono [OF sub]
    by (auto simp: freshShards_append statesSound_simps)
  have 8: "statesSound kept \<and> statesSound (entry # rest) \<longrightarrow> statesSound (fst (snd r))"
    using a(8) sound by (auto simp: statesSound_simps)
  show ?thesis
    unfolding passResult_def using 1 2 3 4 5 6 7 8 by blast
qed

lemma selectChunksPass_result:
  "\<exists>r. selectChunksPass cat kept states usedShards ms = Some r
        \<and> passResult cat kept states usedShards ms r"
proof (induction states arbitrary: kept usedShards ms)
  case Nil
  have "passResult cat kept [] usedShards ms (None, kept, usedShards, ms)"
    unfolding passResult_def
    by (auto simp: shardsOf_def intro: exI [of _ "[]"])
  then show ?case by simp
next
  case (Cons entry rest)
  obtain refreshed where rf: "refreshDefragmentationPhaseFor cat (fst entry) (snd entry) = Some refreshed"
    using refreshDefragmentationPhaseFor_ends by blast
  have skip: "\<exists>r. selectChunksPass cat kept rest usedShards ms = Some r
        \<and> passResult cat kept (entry # rest) usedShards ms r"
  proof -
    from Cons [of kept usedShards ms] obtain r where
      r: "selectChunksPass cat kept rest usedShards ms = Some r"
         "passResult cat kept rest usedShards ms r" by blast
    have "passResult cat kept (entry # rest) usedShards ms r"
      by (rule passResult_step [where pre = "[]" and keptNext = kept and usedNext = usedShards])
         (use r(2) in \<open>auto simp: shardsOf_def\<close>)
    with r(1) show ?thesis by blast
  qed
  show ?case
  proof (cases refreshed)
    case (Inl e)
    with rf skip show ?thesis by simp
  next
    case (Inr current)
    show ?thesis
    proof (cases current)
      case None
      with rf Inr skip show ?thesis by simp
    next
      case (Some phase)
      from refreshDefragmentationPhaseFor_shards [of cat "fst entry" "snd entry" phase] rf Inr Some
      have ref: "chunkShards phase \<subseteq> chunkShards (snd entry) \<union> catalogShards cat (fst entry)"
        "phaseSound (snd entry) \<longrightarrow> phaseSound phase"
        by simp_all
      obtain res usedNext phase1 where pop: "popNextMigration cat usedShards phase = (res, usedNext, phase1)"
        by (cases "popNextMigration cat usedShards phase")
      from popNextMigration_shards [OF pop]
      have pp: "usedShards \<subseteq> usedNext" "usedNext \<subseteq> usedShards \<union> chunkShards phase"
        "chunkShards phase1 \<subseteq> chunkShards phase" "phaseSound phase \<longrightarrow> phaseSound phase1"
        "\<forall>m. res = Inr (Some m)
           \<longrightarrow> mig_to m \<notin> usedShards \<and> mig_to m \<in> usedNext \<and> mig_from m \<in> usedNext
               \<and> (phaseSound phase \<longrightarrow> mig_from m \<notin> usedShards)"
        unfolding phasePop_def by blast+
      have u1: "usedNext \<subseteq> usedShards \<union> knownShards cat [entry]"
        using pp(2) ref(1) by (auto simp: knownShards_def)
      let ?keptNext = "kept @ [(fst entry, phase1)]"
      have k2: "knownShards cat ?keptNext \<subseteq> knownShards cat kept \<union> knownShards cat [entry]"
        using pp(3) ref(1) by (auto simp: knownShards_def)
      have s2: "statesSound kept \<and> phaseSound (snd entry) \<longrightarrow> statesSound ?keptNext"
        using pp(4) ref(2) by (auto simp: statesSound_def)
      show ?thesis
      proof (cases res)
        case failed: (Inl e)
        show ?thesis
        proof (cases "e = DBException")
          case True
          from Cons [of kept usedNext ms] obtain r where
            r: "selectChunksPass cat kept rest usedNext ms = Some r"
               "passResult cat kept rest usedNext ms r" by blast
          have "passResult cat kept (entry # rest) usedShards ms r"
            by (rule passResult_step [where pre = "[]" and keptNext = kept and usedNext = usedNext])
               (use r(2) pp(1) u1 in \<open>auto simp: shardsOf_def\<close>)
          with r(1) rf Inr Some pop failed True show ?thesis by simp
        next
          case False
          let ?r = "(Some e, kept @ (fst entry, phase1) # rest, usedNext, ms)"
          have "passResult cat ?keptNext rest usedNext (ms @ []) ?r"
            unfolding passResult_def
            by (auto simp: shardsOf_def knownShards_def statesSound_def intro: exI [of _ "[]"])
          then have "passResult cat kept (entry # rest) usedShards ms ?r"
            by (rule passResult_step) (use pp(1) u1 k2 s2 in \<open>auto simp: shardsOf_def\<close>)
          with rf Inr Some pop failed False show ?thesis by simp
        qed
      next
        case popped: (Inr found)
        show ?thesis
        proof (cases found)
          case None
          from Cons [of ?keptNext usedNext ms] obtain r where
            r: "selectChunksPass cat ?keptNext rest usedNext ms = Some r"
               "passResult cat ?keptNext rest usedNext ms r" by blast
          have "passResult cat kept (entry # rest) usedShards ms r"
            by (rule passResult_step [where pre = "[]" and keptNext = ?keptNext and usedNext = usedNext])
               (use r(2) pp(1) u1 k2 s2 in \<open>auto simp: shardsOf_def\<close>)
          with r(1) rf Inr Some pop popped None show ?thesis by simp
        next
          case migration: (Some m)
          from pp(5) popped migration have m: "mig_to m \<notin> usedShards" "mig_to m \<in> usedNext"
            "mig_from m \<in> usedNext" "phaseSound phase \<longrightarrow> mig_from m \<notin> usedShards"
            by simp_all
          from Cons [of ?keptNext usedNext "ms @ [m]"] obtain r where
            r: "selectChunksPass cat ?keptNext rest usedNext (ms @ [m]) = Some r"
               "passResult cat ?keptNext rest usedNext (ms @ [m]) r" by blast
          have "passResult cat kept (entry # rest) usedShards ms r"
            by (rule passResult_step [where pre = "[m]" and keptNext = ?keptNext and usedNext = usedNext])
               (use r(2) pp(1) u1 k2 s2 m ref(2) in \<open>auto simp: shardsOf_def\<close>)
          with r(1) rf Inr Some pop popped migration show ?thesis by simp
        qed
      qed
    qed
  qed
qed

lemma finite_knownShards: "finite (knownShards cat states)"
proof -
  have "finite (chunkShards phase)" for phase by (cases phase) simp_all
  moreover have "finite (catalogShards cat uuid)" for uuid
    by (simp add: catalogShards_def split: option.splits)
  ultimately show ?thesis by (simp add: knownShards_def)
qed

lemma passResult_trans:
  assumes a: "passResult cat [] states usedShards ms r1"
    and b: "passResult cat [] (fst (snd r1)) (fst (snd (snd r1))) (snd (snd (snd r1))) r"
  shows "passResult cat [] states usedShards ms r"
proof -
  let ?states1 = "fst (snd r1)" and ?used1 = "fst (snd (snd r1))" and ?ms1 = "snd (snd (snd r1))"
  let ?used' = "fst (snd (snd r))"
  have k0: "knownShards cat [] = {}" by (simp add: knownShards_def)
  from a obtain new1 where
    a: "usedShards \<subseteq> ?used1" "?used1 \<subseteq> usedShards \<union> knownShards cat states"
       "knownShards cat ?states1 \<subseteq> knownShards cat states"
       "?ms1 = ms @ new1" "shardsOf new1 \<subseteq> ?used1" "freshTargets usedShards new1"
       "statesSound states \<longrightarrow> freshShards usedShards new1"
       "statesSound states \<longrightarrow> statesSound ?states1"
    unfolding passResult_def k0 by (auto simp: statesSound_simps)
  from b obtain new2 where
    b: "?used1 \<subseteq> ?used'" "?used' \<subseteq> ?used1 \<union> knownShards cat ?states1"
       "knownShards cat (fst (snd r)) \<subseteq> knownShards cat ?states1"
       "snd (snd (snd r)) = ?ms1 @ new2" "shardsOf new2 \<subseteq> ?used'" "freshTargets ?used1 new2"
       "statesSound ?states1 \<longrightarrow> freshShards ?used1 new2"
       "statesSound ?states1 \<longrightarrow> statesSound (fst (snd r))"
    unfolding passResult_def k0 by (auto simp: statesSound_simps)
  have sub: "usedShards \<union> shardsOf new1 \<subseteq> ?used1" using a(1,5) by auto
  have 1: "usedShards \<subseteq> ?used'" using a(1) b(1) by auto
  have 2: "?used' \<subseteq> usedShards \<union> knownShards cat states" using a(2,3) b(2) by auto
  have 3: "knownShards cat (fst (snd r)) \<subseteq> knownShards cat [] \<union> knownShards cat states"
    using a(3) b(3) by auto
  have 4: "snd (snd (snd r)) = ms @ (new1 @ new2)" using a(4) b(4) by simp
  have 5: "shardsOf (new1 @ new2) \<subseteq> ?used'" using a(5) b(1,5) by (auto simp: shardsOf_def)
  have 6: "freshTargets usedShards (new1 @ new2)"
    using a(6) freshTargets_antimono [OF sub b(6)] by (simp add: freshTargets_append)
  have 7: "statesSound states \<longrightarrow> freshShards usedShards (new1 @ new2)"
    using a(7,8) b(7) freshShards_antimono [OF sub] by (auto simp: freshShards_append)
  have 8: "statesSound [] \<and> statesSound states \<longrightarrow> statesSound (fst (snd r))"
    using a(8) b(8) by auto
  show ?thesis
    unfolding passResult_def using 1 2 3 4 5 6 7 8 by blast
qed

lemma selectChunksLoop_result:
  "\<exists>r. selectChunksLoop cat states usedShards ms = Some r
        \<and> passResult cat [] states usedShards ms r"
proof (induction "card (knownShards cat states - usedShards)" arbitrary: states usedShards ms
       rule: less_induct)
  case less
  from selectChunksPass_result [of cat "[]" states usedShards ms] obtain r1 where
    pass: "selectChunksPass cat [] states usedShards ms = Some r1"
    and res: "passResult cat [] states usedShards ms r1" by blast
  let ?states1 = "fst (snd r1)" and ?used1 = "fst (snd (snd r1))" and ?ms1 = "snd (snd (snd r1))"
  show ?case
  proof (cases "fst r1 \<noteq> None \<or> length ?ms1 = length ms")
    case True
    then have "selectChunksLoop cat states usedShards ms = Some r1"
      by (subst selectChunksLoop.simps) (auto simp: pass)
    with res show ?thesis by blast
  next
    case False
    then have again: "selectChunksLoop cat states usedShards ms
                        = selectChunksLoop cat ?states1 ?used1 ?ms1"
      by (subst selectChunksLoop.simps) (auto simp: pass)
    have k0: "knownShards cat [] = {}" by (simp add: knownShards_def)
    from res obtain new where
      a: "usedShards \<subseteq> ?used1" "?used1 \<subseteq> usedShards \<union> knownShards cat states"
         "knownShards cat ?states1 \<subseteq> knownShards cat states"
         "?ms1 = ms @ new" "shardsOf new \<subseteq> ?used1" "freshTargets usedShards new"
      unfolding passResult_def k0 by auto
    from False a(4) obtain m rest where new: "new = m # rest" by (cases new) auto
    have t: "mig_to m \<notin> usedShards" "mig_to m \<in> ?used1"
      using a(5,6) new by (auto simp: shardsOf_def)
    then have tk: "mig_to m \<in> knownShards cat states" using a(2) by auto
    have "knownShards cat ?states1 - ?used1 \<subset> knownShards cat states - usedShards"
      using a(1,3) t tk by auto
    then have "card (knownShards cat ?states1 - ?used1) < card (knownShards cat states - usedShards)"
      by (intro psubset_card_mono) (simp_all add: finite_knownShards)
    from less [OF this] obtain r where
      r: "selectChunksLoop cat ?states1 ?used1 ?ms1 = Some r"
         "passResult cat [] ?states1 ?used1 ?ms1 r" by blast
    from passResult_trans [OF res r(2)] r(1) again show ?thesis by simp
  qed
qed

section \<open>Coalescing phase: the abort on a non-retriable error\<close>

lemma handleActionResult_nonRetriable:
  "status \<noteq> OK \<Longrightarrow> \<not> isRetriableForDefragmentation status
     \<Longrightarrow> handleActionResult status a b c = c"
  by (simp add: handleActionResult_def)

lemma S1_build:
  "mc_build catalogS1 sampleColl =
     Inr \<lparr>mc_nss = ''db.coll'', mc_uuid = 7, mc_shardKey = keyAt 1,
          mc_pendingActionsByShards =
            [(''A'', \<lparr>rangesToMerge = [rangeOf 0 20], rangesWithoutDataSize = []\<rparr>)],
          mc_outstandingActions = 0, mc_aborted = False, mc_nextPhase = kMoveAndMergeChunks\<rparr>"
  by (simp add: mc_build_def catalogS1_def sampleCatalog_def getCollectionChunks_def
      chunkOf_def rangeOf_def keyAt_def areConsecutive_def woCompare_def map_index_def
      emptyMergePendingActions_def Let_def sampleColl_def)

lemma S1_pop:
  "(case mc_build catalogS1 sampleColl of
      Inr p \<Rightarrow> mc_popNextStreamableAction catalogS1 p | Inl e \<Rightarrow> Inl e) =
     Inr (Some (Merge mergeS1), phaseS1_mergeOutstanding)"
  unfolding S1_build sum.case
  by (simp add: mc_popNextStreamableAction_def getShardVersion_def catalogS1_def
      sampleCatalog_def chunkOf_def map_erase_def mergeS1_def phaseS1_mergeOutstanding_def
      Let_def)

text \<open>
  C2, as the specification words it, fails: on a non-retriable error the phase passes its
  own type to \<^verbatim>\<open>_abort\<close>, so the phase that follows an aborted coalescing phase
  is the coalescing phase again, not the move-and-merge phase that follows a normal
  completion. Scenario S1, its merge answered with a permission error:
\<close>

theorem mc_abort_nextPhase_counterexample:
  "mc_getNextPhase phaseS1_mergeOutstanding = kMoveAndMergeChunks
   \<and> mc_getNextPhase (snd (mc_applyActionResult catalogS1 (Merge mergeS1)
        (StatusResponse (Error accessDenied)) phaseS1_mergeOutstanding))
       \<noteq> kMoveAndMergeChunks"
  by (simp add: mc_applyActionResult_def mc_applyMergeResult_def handleActionResult_def
      mc_abort_def mc_getType_def mc_getNextPhase_def phaseS1_mergeOutstanding_def
      accessDenied_def Let_def)

text \<open>
  C2, amended: when a coalescing phase that has not been aborted receives a non-retriable
  error for one of its merge or measure actions, it aborts: nothing is thrown, its pending
  per-shard work is cleared, and its next phase is the coalescing phase itself
  (\<open>kMergeChunks\<close>); the count of outstanding actions is lowered by one.
\<close>

theorem mc_nonRetriable_error_aborts:
  assumes "\<not> mc_aborted p"
    and "\<not> isRetriableForDefragmentation (Error c)"
    and "(action, response) = (Merge m, StatusResponse (Error c))
         \<or> (action, response) = (DataSize d, DataSizeStatus (Failed c))"
  shows "fst (mc_applyActionResult cat action response p) = None
    \<and> mc_aborted (snd (mc_applyActionResult cat action response p))
    \<and> mc_pendingActionsByShards (snd (mc_applyActionResult cat action response p)) = []
    \<and> mc_getNextPhase (snd (mc_applyActionResult cat action response p)) = kMergeChunks
    \<and> mc_outstandingActions (snd (mc_applyActionResult cat action response p))
        = mc_outstandingActions p - 1"
  using assms
  by (auto simp: mc_applyActionResult_def mc_applyMergeResult_def mc_applyDataSizeResult_def
      handleActionResult_def mc_abort_def mc_getType_def mc_getNextPhase_def Let_def)

theorem mc_nonRetriable_error_aborts_witness:
  "\<not> mc_aborted phaseS1_mergeOutstanding
   \<and> \<not> isRetriableForDefragmentation (Error accessDenied)
   \<and> mc_aborted (snd (mc_applyActionResult catalogS1 (Merge mergeS1)
        (StatusResponse (Error accessDenied)) phaseS1_mergeOutstanding))
   \<and> mc_pendingActionsByShards (snd (mc_applyActionResult catalogS1 (Merge mergeS1)
        (StatusResponse (Error accessDenied)) phaseS1_mergeOutstanding)) = []
   \<and> mc_getNextPhase (snd (mc_applyActionResult catalogS1 (Merge mergeS1)
        (StatusResponse (Error accessDenied)) phaseS1_mergeOutstanding)) = kMergeChunks"
proof -
  have a: "\<not> mc_aborted phaseS1_mergeOutstanding"
    by (simp add: phaseS1_mergeOutstanding_def)
  have b: "\<not> isRetriableForDefragmentation (Error accessDenied)"
    by (simp add: accessDenied_def)
  show ?thesis
    using a b mc_nonRetriable_error_aborts [OF a b, of "Merge mergeS1"
        "StatusResponse (Error accessDenied)" mergeS1 undefined catalogS1]
    by simp
qed

section \<open>The sample phases, evaluated\<close>

lemmas sample_defs = sampleCatalog_def sampleColl_def chunkOf_def rangeOf_def keyAt_def
  shardStats_def sampleVersion_def smallChunk_def

lemmas mm_build_defs = mm_build_def mm_construct_def getCollectionChunks_def
  getCollectionMaxChunkSizeBytes_def smallChunkSizeThreshold_def
  kSmallChunkSizeThresholdPctg_def sizeOfIterator_def currentSizeOfShard_def map_index_def
  mm_abort_def Let_def

lemma build_draining:
  "mm_build catalogDraining sampleColl [shardStats ''A'' 10 0 True] = Inr phaseDraining"
  by (simp add: mm_build_defs catalogDraining_def phaseDraining_def sample_defs)

lemmas mm_pop_defs = mm_popNextMigration_def findNextSmallChunkInShard_def deref_def
  getChunkSiblings_def canBeMoveAndMerged_def chooseTargetSibling_def
  rankMergeableSibling_def getShardVersion_def asMigrateInfo_def makeRequest_def
  updateChunk_def canReceiveNewChunks_def woCompare_def Let_def

lemma pop_draining:
  "fst (mm_popNextMigration catalogDraining {} phaseDraining) =
     Inr (Some \<lparr>mig_nss = ''db.coll'', mig_uuid = 7, mig_to = ''A'', mig_from = ''A'',
                mig_minKey = keyAt 0, mig_maxKey = keyAt 10, mig_version = sampleVersion\<rparr>)"
  by (simp add: mm_pop_defs catalogDraining_def phaseDraining_def sample_defs)


lemma build_three:
  "mm_build catalogThree sampleColl
     [shardStats ''A'' 30 0 False, shardStats ''B'' 5 0 False, shardStats ''C'' 40 0 False]
   = Inr phaseThree"
  by (simp add: mm_build_defs catalogThree_def phaseThree_def sample_defs)

lemma pop_three:
  "mm_popNextMigration catalogThree {} phaseThree =
     (Inr (Some \<lparr>mig_nss = ''db.coll'', mig_uuid = 7, mig_to = ''A'', mig_from = ''B'',
                 mig_minKey = keyAt 10, mig_maxKey = keyAt 20, mig_version = sampleVersion\<rparr>),
      {''A'', ''B''},
      phaseThree\<lparr>mm_collectionChunks :=
                    [(0, smallChunk 0 10 ''A'' 30 True), (1, smallChunk 10 20 ''B'' 5 True),
                     (2, smallChunk 20 30 ''C'' 40 False)],
                  mm_outstandingMigrations :=
                    [\<lparr>chunkToMove = 1, chunkToMergeWith = 0,
                      isChunkToMergeLeftSibling = True\<rparr>]\<rparr>)"
  by (simp add: mm_pop_defs catalogThree_def phaseThree_def sample_defs map_of_map_put)


lemma build_four:
  "mm_build catalogFour sampleColl
      [shardStats ''A'' 5 0 False, shardStats ''B'' 80 0 False,
       shardStats ''C'' 5 0 False, shardStats ''D'' 80 0 False] = Inr phaseFour"
  by (simp add: mm_build_defs catalogFour_def phaseFour_def sample_defs)

lemmas mm_call_defs = mm_call_def mm_applyActionResult_def mm_applyMigrationResult_def
  mm_applyMergeResult_def mm_onMigrationSuccess_def mm_popNextStreamableAction_def
  migrationSucceeded_def handleActionResult_def
  adjustCurrentSize_def sortShardProcessingOrder_def asMergeInfo_def asMergedRange_def
  containsKey_def currentSizeOfShard_def mm_abort_def

lemma run_merging:
  "mm_run phaseFour callsUntilMerges =
     ([MigrationRequested requestCD, MigrationRequested requestAB,
       MigrationSucceeded requestAB, MigrationSucceeded requestCD,
       MergeEmitted requestAB, MergeEmitted requestCD], Some phaseFourMerging)"
  by (simp add: callsUntilMerges_def mm_call_defs mm_pop_defs catalogFour_def phaseFour_def
      phaseFourMerging_def requestAB_def requestCD_def migrateAB_def migrateCD_def
      sample_defs map_of_map_put)

lemma mm_run_append:
  "snd (mm_run p calls) = Some q \<Longrightarrow>
   mm_run p (calls @ later)
     = (fst (mm_run p calls) @ fst (mm_run q later), snd (mm_run q later))"
  by (induction calls arbitrary: p) (auto split: prod.splits if_splits)

lemma run_four:
  "mm_run phaseFour callsUntilAbort =
     ([MigrationRequested requestCD, MigrationRequested requestAB,
       MigrationSucceeded requestAB, MigrationSucceeded requestCD,
       MergeEmitted requestAB, MergeEmitted requestCD, NoEvent], Some phaseFourAborted)"
proof -
  have last_call: "mm_run phaseFourMerging
      [(catalogFour, ApplyActionResult (Merge mergeAB) (StatusResponse (Error accessDenied)))]
      = ([NoEvent], Some phaseFourAborted)"
    by (simp add: mm_call_defs deref_def phaseFourMerging_def phaseFourAborted_def
        phaseFour_def requestAB_def requestCD_def mergeAB_def accessDenied_def sample_defs
        woCompare_def)
  have "snd (mm_run phaseFour callsUntilMerges) = Some phaseFourMerging"
    by (simp add: run_merging)
  then have "mm_run phaseFour callsUntilAbort =
      (fst (mm_run phaseFour callsUntilMerges)
         @ fst (mm_run phaseFourMerging
                  [(catalogFour, ApplyActionResult (Merge mergeAB)
                                   (StatusResponse (Error accessDenied)))]),
       snd (mm_run phaseFourMerging
              [(catalogFour, ApplyActionResult (Merge mergeAB)
                               (StatusResponse (Error accessDenied)))]))"
    unfolding callsUntilAbort_def by (rule mm_run_append)
  then show ?thesis
    unfolding last_call run_merging by simp
qed

section \<open>The threshold of small chunks\<close>

lemma mm_construct_threshold:
  "mm_smallChunkSizeThresholdBytes (mm_construct nss uuid chunks infos zones thr) = thr"
  by (simp add: mm_construct_def mm_abort_def Let_def)

text \<open>
  C4: for every maximum chunk size, the threshold of small chunks of a move-and-merge phase,
  as \<^verbatim>\<open>build\<close> sets it, is \<open>(maxChunkSizeBytes div 100) * 25\<close> in integer division. The
  product never overflows, and the value is the same read as the signed 64-bit field of
  the phase.
\<close>

theorem smallChunkThreshold_is_hundredth_times_25:
  assumes "mm_build cat coll collectionShardStats = Inr p"
  shows "\<exists>maxChunkSizeBytes.
           getCollectionMaxChunkSizeBytes cat coll = Inr maxChunkSizeBytes
           \<and> sint (mm_smallChunkSizeThresholdBytes p) = (uint maxChunkSizeBytes div 100) * 25"
  using assms
  by (auto simp: mm_build_def mm_construct_threshold threshold_sint Let_def
      split: option.splits sum.splits)


text \<open>For a maximum chunk size of 103 the threshold is 25.\<close>

theorem smallChunkThreshold_is_hundredth_times_25_witness:
  "(case mm_build catalog103 sampleColl [shardStats ''A'' 5 0 False] of
      Inl e \<Rightarrow> False
    | Inr p \<Rightarrow> sint (mm_smallChunkSizeThresholdBytes p) = 25)"
proof -
  obtain p where b: "mm_build catalog103 sampleColl [shardStats ''A'' 5 0 False] = Inr p"
    by (simp add: mm_build_def catalog103_def sampleCatalog_def getCollectionChunks_def
        getCollectionMaxChunkSizeBytes_def sampleColl_def)
  have m: "getCollectionMaxChunkSizeBytes catalog103 sampleColl = Inr 103"
    by (simp add: catalog103_def sampleCatalog_def getCollectionMaxChunkSizeBytes_def
        sampleColl_def)
  from smallChunkThreshold_is_hundredth_times_25 [OF b] m
  have "sint (mm_smallChunkSizeThresholdBytes p) = 25" by auto
  with b show ?thesis by simp
qed

section \<open>Acknowledging a merge in the move-and-merge phase\<close>

lemma asMergedRange_union:
  assumes "siblingRequest r toMove toMergeWith"
  shows "asMergedRange r toMove toMergeWith
           = unionRange (cri_range toMove) (cri_range toMergeWith)"
  using assms
  by (auto simp: siblingRequest_def asMergedRange_def unionRange_def woCompare_def
           split: if_splits)

lemma siblingRequest_distinct:
  assumes "siblingRequest r toMove toMergeWith"
  shows "toMove \<noteq> toMergeWith"
  using assms by (auto simp: siblingRequest_def woCompare_def split: if_splits)

lemma mm_applyMergeResult_OK:
  assumes "\<not> mm_aborted p"
    and "findRequest (\<lambda>toMove. containsKey (mi_chunkRange mergeAction)
                                  (getMin (cri_range toMove)))
           (mm_collectionChunks p) (mm_outstandingMerges p) = Inr (Some (request, rest))"
  shows "mm_applyActionResult (Merge mergeAction) (StatusResponse OK) p =
           (case mm_onMergeSuccess request (p\<lparr>mm_outstandingMerges := rest\<rparr>) of
              Inl e \<Rightarrow> (Some e, p\<lparr>mm_outstandingMerges := rest\<rparr>)
            | Inr q \<Rightarrow> (None, q))"
  using assms
  by (simp add: mm_applyActionResult_def mm_applyMergeResult_def handleActionResult_def Let_def)

lemma mm_applyMergeResult_aborted:
  assumes "mm_aborted p"
    and "findRequest (\<lambda>toMove. containsKey (mi_chunkRange mergeAction)
                                  (getMin (cri_range toMove)))
           (mm_collectionChunks p) (mm_outstandingMerges p) = Inr (Some (request, rest))"
  shows "mm_applyActionResult (Merge mergeAction) (StatusResponse response) p =
           (None, p\<lparr>mm_outstandingMerges := rest\<rparr>)"
  using assms
  by (simp add: mm_applyActionResult_def mm_applyMergeResult_def Let_def)

text \<open>
  Claim C3, as the code does not have it. The phase is built for four chunks: two small
  ones, on shards A and C, each to the left of a large one, on shards B and D. Both are
  requested to move, both migrations succeed, both merges are emitted; the merge of
  the first pair then fails with a non-retriable error, which aborts the phase. The
  acknowledgment of the second merge, with an OK status, is matched with its request
  and accepted, and it leaves the two chunks of the request as they were: the chunk to
  merge with keeps its range, its size and its busy flag, and the moved chunk is still
  in the list.
\<close>

theorem mm_merge_ack_after_abort_counterexample:
  "mm_build catalogFour sampleColl
      [shardStats ''A'' 5 0 False, shardStats ''B'' 80 0 False,
       shardStats ''C'' 5 0 False, shardStats ''D'' 80 0 False] = Inr phaseFour
   \<and> (case mm_run phaseFour callsUntilAbort of
        (events, None) \<Rightarrow> False
      | (events, Some p) \<Rightarrow>
          mm_aborted p
        \<and> findRequest (\<lambda>toMove. containsKey (mi_chunkRange mergeCD)
                                    (getMin (cri_range toMove)))
             (mm_collectionChunks p) (mm_outstandingMerges p)
            = Inr (Some (requestCD, []))
        \<and> fst (mm_applyActionResult (Merge mergeCD) (StatusResponse OK) p) = None
        \<and> map_of (mm_collectionChunks
                    (snd (mm_applyActionResult (Merge mergeCD) (StatusResponse OK) p))) 3
            = Some (smallChunk 30 40 ''D'' 80 True)
        \<and> map_of (mm_collectionChunks
                    (snd (mm_applyActionResult (Merge mergeCD) (StatusResponse OK) p))) 2
            = Some (smallChunk 20 30 ''C'' 5 True))"
proof -
  have run: "mm_run phaseFour callsUntilAbort =
     ([MigrationRequested requestCD,
       MigrationRequested requestAB,
       MigrationSucceeded requestAB,
       MigrationSucceeded requestCD,
       MergeEmitted requestAB,
       MergeEmitted requestCD,
       NoEvent], Some phaseFourAborted)"
    by (rule run_four)
  have found: "findRequest (\<lambda>toMove. containsKey (mi_chunkRange mergeCD)
                                  (getMin (cri_range toMove)))
           (mm_collectionChunks phaseFourAborted) (mm_outstandingMerges phaseFourAborted)
         = Inr (Some (requestCD, []))"
    by (simp add: phaseFourAborted_def phaseFourMerging_def phaseFour_def requestCD_def
        deref_def containsKey_def woCompare_def mergeCD_def smallChunk_def rangeOf_def
        keyAt_def)
  have ab: "mm_aborted phaseFourAborted" by (simp add: phaseFourAborted_def)
  have chunks:
    "map_of (mm_collectionChunks phaseFourAborted) 3 = Some (smallChunk 30 40 ''D'' 80 True)"
    "map_of (mm_collectionChunks phaseFourAborted) 2 = Some (smallChunk 20 30 ''C'' 5 True)"
    by (simp_all add: phaseFourAborted_def phaseFourMerging_def phaseFour_def)
  show ?thesis
    using build_four found ab chunks
    by (simp add: run mm_applyMergeResult_aborted [OF ab found])
qed

text \<open>
  Claim C3, amended. In a phase that has not been aborted, when the merge acknowledged
  with an OK status is matched with a request of \<^verbatim>\<open>_outstandingMerges\<close> whose two chunks
  are siblings in the chunk list, and the index of small chunks is sound, the call
  succeeds and removes the request from \<^verbatim>\<open>_outstandingMerges\<close>. Afterwards the chunk to
  merge with has the union of the two ranges, the sum of the two sizes (here for sizes
  whose sum fits a \<^verbatim>\<open>long long\<close>), its busy flag cleared and its shard unchanged; the moved
  chunk is no longer in the chunk list, nor in any list of the index of small chunks;
  every other chunk is as before.
\<close>

theorem mm_merge_success_merges_chunks:
  assumes live: "\<not> mm_aborted p"
    and found: "findRequest (\<lambda>toMove. containsKey (mi_chunkRange mergeAction)
                                  (getMin (cri_range toMove)))
           (mm_collectionChunks p) (mm_outstandingMerges p) = Inr (Some (request, rest))"
    and mv: "map_of (mm_collectionChunks p) (chunkToMove request) = Some toMove"
    and mw: "map_of (mm_collectionChunks p) (chunkToMergeWith request) = Some toMergeWith"
    and sib: "siblingRequest request toMove toMergeWith"
    and sound: "smallIndexSound (mm_smallChunksByShard p) (mm_collectionChunks p)"
    and fits: "- (2 ^ 63) \<le> sint (cri_estimatedSizeBytes toMergeWith)
                              + sint (cri_estimatedSizeBytes toMove)"
              "sint (cri_estimatedSizeBytes toMergeWith)
                 + sint (cri_estimatedSizeBytes toMove) < 2 ^ 63"
  shows "\<exists>q merged.
           mm_applyActionResult (Merge mergeAction) (StatusResponse OK) p = (None, q)
         \<and> mm_outstandingMerges q = rest
         \<and> map_of (mm_collectionChunks q) (chunkToMergeWith request) = Some merged
         \<and> cri_range merged = unionRange (cri_range toMove) (cri_range toMergeWith)
         \<and> sint (cri_estimatedSizeBytes merged)
             = sint (cri_estimatedSizeBytes toMergeWith) + sint (cri_estimatedSizeBytes toMove)
         \<and> \<not> cri_busyInOperation merged
         \<and> cri_shard merged = cri_shard toMergeWith
         \<and> chunkToMove request \<notin> fst ` set (mm_collectionChunks q)
         \<and> (\<forall>shard l. map_of (mm_smallChunksByShard q) shard = Some l
                \<longrightarrow> chunkToMove request \<notin> set l)
         \<and> (\<forall>it. it \<noteq> chunkToMove request \<and> it \<noteq> chunkToMergeWith request
                \<longrightarrow> map_of (mm_collectionChunks q) it = map_of (mm_collectionChunks p) it)"
proof -
  let ?p1 = "p\<lparr>mm_outstandingMerges := rest\<rparr>"
  let ?F = "mergedChunkUpdate request toMove toMergeWith"
  let ?chunks = "eraseChunk (chunkToMove request)
                   (updateChunk (chunkToMergeWith request) ?F (mm_collectionChunks p))"
  let ?small1 = "removeIteratorFromSmallChunks (chunkToMove request) (cri_shard toMove)
                   (mm_smallChunksByShard p)"
  have ne: "chunkToMove request \<noteq> chunkToMergeWith request"
    using siblingRequest_distinct [OF sib] mv mw by auto
  from mm_onMergeSuccess_result [of ?p1 request toMove toMergeWith] mv mw ne sound
  obtain small' where
    res: "mm_onMergeSuccess request ?p1
            = Inr (?p1\<lparr>mm_collectionChunks := ?chunks, mm_smallChunksByShard := small'\<rparr>)"
    and shr: "smallShrinks ?small1 small'"
    by auto
  let ?q = "?p1\<lparr>mm_collectionChunks := ?chunks, mm_smallChunksByShard := small'\<rparr>"
  have call: "mm_applyActionResult (Merge mergeAction) (StatusResponse OK) p = (None, ?q)"
    by (simp add: mm_applyMergeResult_OK [OF live found] res)
  have lookup: "\<And>it. map_of ?chunks it =
      (if it = chunkToMove request then None
       else if it = chunkToMergeWith request
            then map_option ?F (map_of (mm_collectionChunks p) it)
       else map_of (mm_collectionChunks p) it)"
    by (simp add: map_of_eraseChunk map_of_updateChunk)
  have merged: "map_of (mm_collectionChunks ?q) (chunkToMergeWith request)
                  = Some (?F toMergeWith)"
    using ne mw by (simp add: lookup)
  have range: "cri_range (?F toMergeWith)
                 = unionRange (cri_range toMove) (cri_range toMergeWith)"
    by (simp add: mergedChunkUpdate_def asMergedRange_union [OF sib])
  have sz: "sint (cri_estimatedSizeBytes (?F toMergeWith))
              = sint (cri_estimatedSizeBytes toMergeWith) + sint (cri_estimatedSizeBytes toMove)"
    using fits by (simp add: mergedChunkUpdate_def sint_add64_no_overflow)
  have gone: "chunkToMove request \<notin> fst ` set (mm_collectionChunks ?q)"
    by (auto simp: eraseChunk_def)
  have idx: "\<forall>shard l. map_of (mm_smallChunksByShard ?q) shard = Some l
                \<longrightarrow> chunkToMove request \<notin> set l"
  proof (intro allI impI)
    fix shard l assume "map_of (mm_smallChunksByShard ?q) shard = Some l"
    then have "map_of small' shard = Some l" by simp
    with shr obtain l0 where l0: "map_of ?small1 shard = Some l0" "set l \<subseteq> set l0"
      unfolding smallShrinks_def by blast
    from removeIterator_gone [OF sound mv l0(1)] l0(2)
    show "chunkToMove request \<notin> set l" by auto
  qed
  have others: "\<forall>it. it \<noteq> chunkToMove request \<and> it \<noteq> chunkToMergeWith request
                \<longrightarrow> map_of (mm_collectionChunks ?q) it = map_of (mm_collectionChunks p) it"
    by (simp add: lookup)
  have "mm_outstandingMerges ?q = rest" by simp
  moreover have "\<not> cri_busyInOperation (?F toMergeWith)"
    "cri_shard (?F toMergeWith) = cri_shard toMergeWith"
    by (simp_all add: mergedChunkUpdate_def)
  ultimately show ?thesis
    using call merged range sz gone idx others by blast
qed

theorem mm_merge_success_merges_chunks_witness:
  "\<not> mm_aborted phaseFourMerging
   \<and> findRequest (\<lambda>toMove. containsKey (mi_chunkRange mergeCD) (getMin (cri_range toMove)))
        (mm_collectionChunks phaseFourMerging) (mm_outstandingMerges phaseFourMerging)
       = Inr (Some (requestCD, [requestAB]))
   \<and> siblingRequest requestCD (smallChunk 20 30 ''C'' 5 True) (smallChunk 30 40 ''D'' 80 True)
   \<and> smallIndexSound (mm_smallChunksByShard phaseFourMerging)
        (mm_collectionChunks phaseFourMerging)
   \<and> (\<exists>q. mm_applyActionResult (Merge mergeCD) (StatusResponse OK) phaseFourMerging = (None, q)
          \<and> mm_outstandingMerges q = [requestAB]
          \<and> map_of (mm_collectionChunks q) 3 = Some (smallChunk 20 40 ''D'' 85 False)
          \<and> 2 \<notin> fst ` set (mm_collectionChunks q)
          \<and> map_of (mm_collectionChunks q) 1 = Some (smallChunk 10 20 ''B'' 80 True))"
proof -
  let ?mv = "smallChunk 20 30 ''C'' 5 True"
  let ?mw = "smallChunk 30 40 ''D'' 80 True"
  have live: "\<not> mm_aborted phaseFourMerging"
    by (simp add: phaseFourMerging_def phaseFour_def)
  have found: "findRequest (\<lambda>toMove. containsKey (mi_chunkRange mergeCD)
                                  (getMin (cri_range toMove)))
        (mm_collectionChunks phaseFourMerging) (mm_outstandingMerges phaseFourMerging)
       = Inr (Some (requestCD, [requestAB]))"
    by (simp add: phaseFourMerging_def phaseFour_def requestAB_def requestCD_def deref_def
        containsKey_def woCompare_def mergeCD_def smallChunk_def rangeOf_def keyAt_def)
  have mv: "map_of (mm_collectionChunks phaseFourMerging) (chunkToMove requestCD) = Some ?mv"
    by (simp add: phaseFourMerging_def phaseFour_def requestCD_def)
  have mw: "map_of (mm_collectionChunks phaseFourMerging) (chunkToMergeWith requestCD) = Some ?mw"
    by (simp add: phaseFourMerging_def phaseFour_def requestCD_def)
  have sib: "siblingRequest requestCD ?mv ?mw"
    by (simp add: siblingRequest_def requestCD_def smallChunk_def rangeOf_def keyAt_def
        woCompare_def)
  have sound: "smallIndexSound (mm_smallChunksByShard phaseFourMerging)
                 (mm_collectionChunks phaseFourMerging)"
    by (auto simp: smallIndexSound_def phaseFourMerging_def phaseFour_def smallChunk_def
             split: if_splits)
  have fits: "- (2 ^ 63) \<le> sint (cri_estimatedSizeBytes ?mw) + sint (cri_estimatedSizeBytes ?mv)"
    "sint (cri_estimatedSizeBytes ?mw) + sint (cri_estimatedSizeBytes ?mv) < 2 ^ 63"
    by (simp_all add: smallChunk_def)
  from mm_merge_success_merges_chunks [OF live found mv mw sib sound fits]
  obtain q merged where
    q: "mm_applyActionResult (Merge mergeCD) (StatusResponse OK) phaseFourMerging = (None, q)"
       "mm_outstandingMerges q = [requestAB]"
       "map_of (mm_collectionChunks q) (chunkToMergeWith requestCD) = Some merged"
       "cri_range merged = unionRange (cri_range ?mv) (cri_range ?mw)"
       "sint (cri_estimatedSizeBytes merged)
          = sint (cri_estimatedSizeBytes ?mw) + sint (cri_estimatedSizeBytes ?mv)"
       "\<not> cri_busyInOperation merged"
       "cri_shard merged = cri_shard ?mw"
       "chunkToMove requestCD \<notin> fst ` set (mm_collectionChunks q)"
       "\<forall>it. it \<noteq> chunkToMove requestCD \<and> it \<noteq> chunkToMergeWith requestCD
            \<longrightarrow> map_of (mm_collectionChunks q) it
                  = map_of (mm_collectionChunks phaseFourMerging) it"
    by blast
  have "sint (cri_estimatedSizeBytes merged) = sint (85 :: 64 word)"
    using q(5) by (simp add: smallChunk_def)
  then have sz: "cri_estimatedSizeBytes merged = 85" by (rule signed_word_eqI)
  have "merged = smallChunk 20 40 ''D'' 85 False"
    using q(4,6,7) sz
    by (simp add: smallChunk_def unionRange_def rangeOf_def keyAt_def woCompare_def)
  then have three: "map_of (mm_collectionChunks q) 3 = Some (smallChunk 20 40 ''D'' 85 False)"
    using q(3) by (simp add: requestCD_def)
  have two: "2 \<notin> fst ` set (mm_collectionChunks q)"
    using q(8) by (simp add: requestCD_def)
  have one: "map_of (mm_collectionChunks q) 1 = Some (smallChunk 10 20 ''B'' 80 True)"
    using q(9) [rule_format, of 1]
    by (simp add: requestCD_def phaseFourMerging_def phaseFour_def)
  show ?thesis
    using live found sib sound q(1,2) three two one by blast
qed

section \<open>Merges are emitted after their migration has succeeded\<close>

text \<open>
  Claim C1. Take a move-and-merge phase as \<^verbatim>\<open>build\<close> returns it and any list of calls of
  \<^verbatim>\<open>popNextMigration\<close>, \<^verbatim>\<open>popNextStreamableAction\<close> and \<^verbatim>\<open>applyActionResult\<close> on it, with
  any arguments and any catalog at each call. Whenever \<^verbatim>\<open>popNextStreamableAction\<close>
  emits the merge of a request, an earlier call has acknowledged the migration of that
  request with an OK status and run the success handler, and the request has not been
  made again by \<^verbatim>\<open>popNextMigration\<close> between that acknowledgment and the merge.
\<close>

theorem merge_emitted_after_migration_succeeded:
  assumes "mm_build cat coll collectionShardStats = Inr p"
    and "i < length (fst (mm_run p calls))"
    and "fst (mm_run p calls) ! i = MergeEmitted request"
  shows "\<exists>j < i. fst (mm_run p calls) ! j = MigrationSucceeded request
           \<and> (\<forall>k. j < k \<and> k < i
                  \<longrightarrow> fst (mm_run p calls) ! k \<noteq> MigrationRequested request)"
proof -
  let ?events = "fst (mm_run p calls)"
  have "historyInv [] p" using assms(1) by (rule mm_build_historyInv)
  then have "emittedInOrder [] ?events" by (rule mm_run_inOrder)
  from emittedInOrder_nth [OF this assms(2,3)]
  have "succeededLast (rev (take i ?events)) request" by simp
  from succeededLast_rev [OF this] assms(2) obtain j where
    j: "j < i" "take i ?events ! j = MigrationSucceeded request"
       "\<forall>k. j < k \<and> k < i \<longrightarrow> take i ?events ! k \<noteq> MigrationRequested request"
    by auto
  have "?events ! j = MigrationSucceeded request" using j(1,2) by simp
  moreover have "\<forall>k. j < k \<and> k < i \<longrightarrow> ?events ! k \<noteq> MigrationRequested request"
    using j(3) by auto
  ultimately show ?thesis using j(1) by blast
qed

theorem merge_emitted_after_migration_succeeded_witness:
  "mm_build catalogFour sampleColl
      [shardStats ''A'' 5 0 False, shardStats ''B'' 80 0 False,
       shardStats ''C'' 5 0 False, shardStats ''D'' 80 0 False] = Inr phaseFour
   \<and> fst (mm_run phaseFour callsUntilMerges)
       = [MigrationRequested requestCD, MigrationRequested requestAB,
          MigrationSucceeded requestAB, MigrationSucceeded requestCD,
          MergeEmitted requestAB, MergeEmitted requestCD]
   \<and> (\<exists>j < 5. fst (mm_run phaseFour callsUntilMerges) ! j = MigrationSucceeded requestCD
          \<and> (\<forall>k. j < k \<and> k < 5
                 \<longrightarrow> fst (mm_run phaseFour callsUntilMerges) ! k
                       \<noteq> MigrationRequested requestCD))"
proof -
  have events: "fst (mm_run phaseFour callsUntilMerges)
       = [MigrationRequested requestCD, MigrationRequested requestAB,
          MigrationSucceeded requestAB, MigrationSucceeded requestCD,
          MergeEmitted requestAB, MergeEmitted requestCD]"
    by (simp add: run_merging)
  have len: "5 < length (fst (mm_run phaseFour callsUntilMerges))"
    by (simp add: events)
  have at: "fst (mm_run phaseFour callsUntilMerges) ! 5 = MergeEmitted requestCD"
    by (simp add: events)
  from merge_emitted_after_migration_succeeded [OF build_four len at] build_four events
  show ?thesis by blast
qed

section \<open>The end of the action stream\<close>

lemma mc_popNextStreamableAction_not_end:
  assumes "mc_popNextStreamableAction cat p = Inr (Some a, p')"
  shows "a \<noteq> EndOfActionStream"
  using assms
  by (auto simp: mc_popNextStreamableAction_def Let_def
           split: list.splits prod.splits sum.splits if_splits)

lemma sc_popNextStreamableAction_not_end:
  assumes "sc_popNextStreamableAction cat p = Inr (Some a, p')"
  shows "a \<noteq> EndOfActionStream"
  using assms
  by (auto simp: sc_popNextStreamableAction_def Let_def
           split: list.splits prod.splits sum.splits if_splits)

lemma mm_popNextStreamableAction_not_end:
  assumes "mm_popNextStreamableAction cat p = (Inr (Some a), p')"
  shows "a \<noteq> EndOfActionStream"
  using assms
  by (auto simp: mm_popNextStreamableAction_def Let_def
           split: list.splits sum.splits)

lemma popNextStreamableAction_not_end:
  assumes "popNextStreamableAction cat phase = (Inr (Some a), phase')"
  shows "a \<noteq> EndOfActionStream"
proof (cases phase)
  case (MergeChunks p)
  with assms show ?thesis
    by (cases "mc_popNextStreamableAction cat p")
       (auto dest!: mc_popNextStreamableAction_not_end)
next
  case (MoveAndMergeChunks p)
  with assms show ?thesis
    by (auto split: prod.splits dest: mm_popNextStreamableAction_not_end)
next
  case (SplitChunks p)
  with assms show ?thesis
    by (cases "sc_popNextStreamableAction cat p")
       (auto dest!: sc_popNextStreamableAction_not_end)
qed

lemma nextStreamingActionFrom_not_end:
  assumes "nextStreamingActionFrom cat kept states = Some (Inr (Some a), states')"
  shows "a \<noteq> EndOfActionStream"
  using assms
proof (induction cat kept states rule: nextStreamingActionFrom.induct)
  case (1 cat kept)
  then show ?case by simp
next
  case (2 cat kept entry rest)
  show ?case
  proof (cases "refreshDefragmentationPhaseFor cat (fst entry) (snd entry)")
    case None
    with 2(5) show ?thesis by simp
  next
    case (Some refreshed)
    show ?thesis
    proof (cases refreshed)
      case (Inl e)
      with 2(1) [OF Some Inl] 2(5) Some show ?thesis by simp
    next
      case (Inr current)
      show ?thesis
      proof (cases current)
        case None
        with 2(2) [OF Some Inr None] 2(5) Some Inr show ?thesis by simp
      next
        case present: (Some phase)
        obtain r phase' where pop: "popNextStreamableAction cat phase = (r, phase')"
          by (cases "popNextStreamableAction cat phase")
        show ?thesis
        proof (cases r)
          case failed: (Inl e)
          show ?thesis
          proof (cases "e = DBException")
            case True
            with 2(3) [OF Some Inr present pop [symmetric] failed True] 2(5) Some Inr present
              pop failed
            show ?thesis by simp
          next
            case False
            with 2(5) Some Inr present pop failed show ?thesis by simp
          qed
        next
          case popped: (Inr action)
          show ?thesis
          proof (cases action)
            case None
            with 2(4) [OF Some Inr present pop [symmetric] popped None] 2(5) Some Inr present
              pop popped
            show ?thesis by simp
          next
            case emitted: (Some nextAction)
            with 2(5) Some Inr present pop popped have "a = nextAction" by simp
            with popNextStreamableAction_not_end [of cat phase nextAction phase'] pop popped
              emitted
            show ?thesis by simp
          qed
        qed
      qed
    qed
  qed
qed

lemma nextStreamingAction_not_end:
  assumes "nextStreamingAction cat s = Some (Inr (Some a), s1)"
  shows "a \<noteq> EndOfActionStream \<and> workAvailable cat s"
proof (cases "nextStreamingActionFrom cat [] (defragmentationStates s)")
  case None
  with assms show ?thesis by (simp add: nextStreamingAction_def)
next
  case (Some r)
  obtain res states where r: "r = (res, states)" by (cases r)
  show ?thesis
  proof (cases res)
    case (Inl e)
    with assms Some r show ?thesis by (simp add: nextStreamingAction_def)
  next
    case (Inr found)
    show ?thesis
    proof (cases found)
      case None
      with assms Some r Inr show ?thesis
        by (simp add: nextStreamingAction_def convertOptional_def defaultConstructedOptional_def
            split: if_splits)
    next
      case present: (Some nextAction)
      with assms Some r Inr have "a = nextAction" by (simp add: nextStreamingAction_def)
      with nextStreamingActionFrom_not_end [of cat "[]" "defragmentationStates s" nextAction states]
        Some r Inr present
      show ?thesis by (simp add: workAvailable_def)
    qed
  qed
qed

lemma getNextStreamingAction_never_end_of_stream:
  "getNextStreamingAction kMaxConcurrentOperations cat s
     \<noteq> Some (Inr (Ready EndOfActionStream), s')"
proof
  assume r: "getNextStreamingAction kMaxConcurrentOperations cat s
               = Some (Inr (Ready EndOfActionStream), s')"
  then obtain s1 where "nextStreamingAction cat s = Some (Inr (Some EndOfActionStream), s1)"
    by (auto simp: getNextStreamingAction_def
             split: if_splits option.splits prod.splits sum.splits)
  from nextStreamingAction_not_end [OF this] show False by simp
qed

lemma getNextStreamingAction_hands_out_merge:
  "getNextStreamingAction 50 catalogFour policyMerging
     = Some (Inr (Ready (Merge mergeCD)),
             policyMerging\<lparr>defragmentationStates :=
                 [(7, MoveAndMergeChunks (phaseFourActionable
                        \<lparr>mm_outstandingMerges := [requestAB, requestCD],
                         mm_actionableMerges := []\<rparr>))],
               concurrentStreamingOps := 2\<rparr>)"
proof -
  have pop: "mm_popNextStreamableAction catalogFour phaseFourActionable
      = (Inr (Some (Merge mergeCD)),
         phaseFourActionable\<lparr>mm_outstandingMerges := [requestAB, requestCD],
                              mm_actionableMerges := []\<rparr>)"
    by (simp add: mm_popNextStreamableAction_def phaseFourActionable_def phaseFourMerging_def
        phaseFour_def requestAB_def requestCD_def mergeCD_def deref_def getShardVersion_def
        asMergeInfo_def asMergedRange_def catalogFour_def sample_defs)
  have incomplete: "\<not> mm_isComplete phaseFourActionable"
    by (simp add: mm_isComplete_def phaseFourActionable_def)
  have loop: "nextStreamingActionFrom catalogFour [] (defragmentationStates policyMerging)
      = Some (Inr (Some (Merge mergeCD)),
              [(7, MoveAndMergeChunks (phaseFourActionable
                     \<lparr>mm_outstandingMerges := [requestAB, requestCD],
                      mm_actionableMerges := []\<rparr>))])"
    by (simp add: policyMerging_def refreshDefragmentationPhaseFor_def incomplete pop)
  show ?thesis
    by (simp add: getNextStreamingAction_def nextStreamingAction_def loop)
       (simp add: policyMerging_def)
qed

lemma getNextStreamingAction_at_limit:
  "getNextStreamingAction 50 catalogS1 policyBusyClosed
     = Some (Inr Pending, policyBusyClosed\<lparr>nextStreamingActionPromise := True\<rparr>)"
  by (simp add: policyBusyClosed_def policyBusy_def closeActionStream_def
      getNextStreamingAction_def)

text \<open>
  Claim C5, at the input where the code departs from it. \<^verbatim>\<open>closeActionStream\<close> is called
  on a policy without collections, with no action handed out and no consumer parked; the
  maximum number of concurrent actions is fifty. The stream is now closed, no phase has
  work and the number of actions handed out, zero, is below the maximum, so the claim has
  \<^verbatim>\<open>getNextStreamingAction\<close> return a future resolved with the end of the stream. The
  code returns a future that is not resolved and parks the promise of the consumer:
  \<^verbatim>\<open>_nextStreamingAction\<close> assigns to its result, under \<^verbatim>\<open>if (_streamClosed)\<close>, an optional
  that holds no value. \<^verbatim>\<open>closeActionStream\<close> itself, when a consumer is parked, does hand it
  the end of the stream.
\<close>

theorem getNextStreamingAction_closed_idle_parks:
  "streamClosed policyClosed
   \<and> defragmentationStates policyClosed = []
   \<and> \<not> workAvailable catalogS1 policyClosed
   \<and> concurrentStreamingOps policyClosed < 50
   \<and> getNextStreamingAction 50 catalogS1 policyClosed
       = Some (Inr Pending, policyClosed\<lparr>nextStreamingActionPromise := True\<rparr>)
   \<and> fst (closeActionStream (policyFresh\<lparr>nextStreamingActionPromise := True\<rparr>))
       = Some EndOfActionStream"
  by (simp add: policyClosed_def policyFresh_def closeActionStream_def workAvailable_def
      getNextStreamingAction_def nextStreamingAction_def convertOptional_def
      defaultConstructedOptional_def)

section \<open>Acknowledgments for a collection that is gone\<close>

text \<open>
  C6: an acknowledgment (of a merge, a data size, an auto-split vector, a split or a move)
  whose action names a collection that is not in the map of the policy returns without
  throwing, hands nothing to a parked consumer and leaves the whole state of the policy (the
  map, the count of streaming operations, the slot of the parked consumer and the flag of
  the closed stream) as it was.
\<close>

theorem acknowledge_unknown_collection_is_noop:
  assumes "map_of (defragmentationStates s) uuid = None"
  shows "(mi_uuid mergeAction = uuid \<longrightarrow>
            acknowledgeMergeResult maxUser cat mergeAction status s = Some (None, None, s))
       \<and> (ds_uuid dataSizeAction = uuid \<longrightarrow>
            acknowledgeDataSizeResult maxUser cat dataSizeAction sizeResult s = Some (None, None, s))
       \<and> (asv_uuid autoSplitAction = uuid \<longrightarrow>
            acknowledgeAutoSplitVectorResult maxUser cat autoSplitAction splitPoints s
              = Some (None, None, s))
       \<and> (si_uuid splitAction = uuid \<longrightarrow>
            acknowledgeSplitResult maxUser cat splitAction status s = Some (None, None, s))
       \<and> (mig_uuid moveAction = uuid \<longrightarrow>
            acknowledgeMoveResult maxUser cat moveAction status s = Some (None, None, s))"
  using assms
  by (simp add: acknowledgeMergeResult_def acknowledgeDataSizeResult_def
      acknowledgeAutoSplitVectorResult_def acknowledgeSplitResult_def
      acknowledgeMoveResult_def acknowledgeResult_def)


theorem acknowledge_unknown_collection_is_noop_witness:
  "map_of (defragmentationStates policyIdle) 7 = None
   \<and> acknowledgeMergeResult sixteenMB catalogS1 mergeS1 OK policyIdle
        = Some (None, None, policyIdle)
   \<and> acknowledgeDataSizeResult sixteenMB catalogS1 dataSizeS1
          (Value \<lparr>sizeBytes = 10, numObjects = 1\<rparr>) policyIdle = Some (None, None, policyIdle)
   \<and> acknowledgeAutoSplitVectorResult sixteenMB catalogS1 autoSplitA (Value [keyAt 30])
          policyIdle = Some (None, None, policyIdle)
   \<and> acknowledgeSplitResult sixteenMB catalogS1 splitA OK policyIdle
        = Some (None, None, policyIdle)
   \<and> acknowledgeMoveResult sixteenMB catalogS1 migrateBA OK policyIdle
        = Some (None, None, policyIdle)"
proof -
  have a: "map_of (defragmentationStates policyIdle) 7 = None"
    by (simp add: policyIdle_def)
  show ?thesis
    using a acknowledge_unknown_collection_is_noop [OF a, of mergeS1 sixteenMB catalogS1 OK
        dataSizeS1 "Value \<lparr>sizeBytes = 10, numObjects = 1\<rparr>" autoSplitA "Value [keyAt 30]"
        splitA migrateBA]
    by (simp add: mergeS1_def dataSizeS1_def autoSplitA_def splitA_def migrateBA_def)
qed
section \<open>The ranking of siblings\<close>

lemma rankMergeableSibling_value:
  assumes "- (2 ^ 63) \<le> sint (cri_estimatedSizeBytes cand) + sint (cri_estimatedSizeBytes sib)"
    and "sint (cri_estimatedSizeBytes cand) + sint (cri_estimatedSizeBytes sib) < 2 ^ 63"
  shows "unat (rankMergeableSibling p cand sib) =
      (if cri_shard cand = cri_shard sib then 16 else 0)
    + (if cri_shard cand \<noteq> cri_shard sib
          \<and> sint (cri_estimatedSizeBytes cand) < sint (cri_estimatedSizeBytes sib)
       then 8 else 0)
    + (if sint (cri_estimatedSizeBytes cand) + sint (cri_estimatedSizeBytes sib)
            > sint (mm_smallChunkSizeThresholdBytes p)
       then (if sint (cri_estimatedSizeBytes sib) < sint (mm_smallChunkSizeThresholdBytes p)
             then 4 else 2)
       else 0)"
  using sint_add64_no_overflow [OF assms]
  by (simp add: rankMergeableSibling_def Let_def word_sless_alt)

lemma chooseTargetSibling_two:
  assumes "fst s1 \<noteq> fst s2"
    and "map_of (mm_shardInfos p) (cri_shard (snd s1)) = Some i1"
    and "map_of (mm_shardInfos p) (cri_shard (snd s2)) = Some i2"
  shows "chooseTargetSibling p cand [s1, s2] =
     Inr (if rankMergeableSibling p cand (snd s2) > rankMergeableSibling p cand (snd s1) then s2
          else if rankMergeableSibling p cand (snd s2) = rankMergeableSibling p cand (snd s1)
                  \<and> currentSizeBytes i2 < currentSizeBytes i1 then s2
          else s1)"
  using assms by (simp add: chooseTargetSibling_def Let_def)


lemma popNextMigrationFrom_found:
  assumes "shardId \<notin> usedShards"
    and "findNextSmallChunkInShard shardId usedShards p = Inr (q, Some (cand, sibs))"
    and "chooseTargetSibling q (snd cand) sibs = Inr target"
    and "getShardVersion cat (cri_shard (snd cand)) (mm_uuid q) = Inr version"
  shows "fst (popNextMigrationFrom cat (shardId # rest) usedShards p)
           = Inr (Some (asMigrateInfo (mm_uuid q) (mm_nss q) version (snd cand) (snd target)))"
    and "mm_outstandingMigrations (snd (snd (popNextMigrationFrom cat (shardId # rest) usedShards p)))
           = mm_outstandingMigrations q @ [makeRequest cand target]"
  using assms by (simp_all add: Let_def)

text \<open>
  C7: in the move-and-merge phase the rank of a sibling, for every chunk and sibling whose
  sizes add up without overflow, is the value the specification gives (16 for the same
  shard, else 8 when the candidate is strictly smaller than the sibling, plus 4 or 2 when
  the merged size exceeds the threshold, 4 if the sibling is below the threshold). When
  two siblings survive the filtering, \<^verbatim>\<open>popNextMigration\<close> targets one of the two whose
  rank is not below the other's, and on equal ranks one whose shard holds no more data
  than the other's; the migration returned and the request recorded are for that target.
\<close>

theorem mm_sibling_rank_and_choice:
  assumes "shardId \<notin> usedShards"
    and "findNextSmallChunkInShard shardId usedShards p = Inr (q, Some (cand, [s1, s2]))"
    and "fst s1 \<noteq> fst s2"
    and "map_of (mm_shardInfos q) (cri_shard (snd s1)) = Some i1"
    and "map_of (mm_shardInfos q) (cri_shard (snd s2)) = Some i2"
    and "getShardVersion cat (cri_shard (snd cand)) (mm_uuid q) = Inr version"
    and "\<forall>sib \<in> {snd s1, snd s2}.
           - (2 ^ 63) \<le> sint (cri_estimatedSizeBytes (snd cand)) + sint (cri_estimatedSizeBytes sib)
           \<and> sint (cri_estimatedSizeBytes (snd cand)) + sint (cri_estimatedSizeBytes sib) < 2 ^ 63"
  shows "(\<forall>c sib. - (2 ^ 63) \<le> sint (cri_estimatedSizeBytes c) + sint (cri_estimatedSizeBytes sib)
             \<and> sint (cri_estimatedSizeBytes c) + sint (cri_estimatedSizeBytes sib) < 2 ^ 63
           \<longrightarrow> unat (rankMergeableSibling q c sib)
                 = rank_spec (cri_shard c = cri_shard sib) (sint (cri_estimatedSizeBytes c))
                     (sint (cri_estimatedSizeBytes sib))
                     (sint (mm_smallChunkSizeThresholdBytes q)))
    \<and> (\<exists>target targetShard other otherShard.
          ((target, targetShard), (other, otherShard)) \<in> {((s1, i1), (s2, i2)), ((s2, i2), (s1, i1))}
        \<and> fst (popNextMigrationFrom cat (shardId # rest) usedShards p)
            = Inr (Some (asMigrateInfo (mm_uuid q) (mm_nss q) version (snd cand) (snd target)))
        \<and> mm_outstandingMigrations
              (snd (snd (popNextMigrationFrom cat (shardId # rest) usedShards p)))
            = mm_outstandingMigrations q @ [makeRequest cand target]
        \<and> rank_spec (cri_shard (snd cand) = cri_shard (snd other))
              (sint (cri_estimatedSizeBytes (snd cand))) (sint (cri_estimatedSizeBytes (snd other)))
              (sint (mm_smallChunkSizeThresholdBytes q))
          \<le> rank_spec (cri_shard (snd cand) = cri_shard (snd target))
              (sint (cri_estimatedSizeBytes (snd cand))) (sint (cri_estimatedSizeBytes (snd target)))
              (sint (mm_smallChunkSizeThresholdBytes q))
        \<and> (rank_spec (cri_shard (snd cand) = cri_shard (snd other))
              (sint (cri_estimatedSizeBytes (snd cand))) (sint (cri_estimatedSizeBytes (snd other)))
              (sint (mm_smallChunkSizeThresholdBytes q))
           = rank_spec (cri_shard (snd cand) = cri_shard (snd target))
              (sint (cri_estimatedSizeBytes (snd cand))) (sint (cri_estimatedSizeBytes (snd target)))
              (sint (mm_smallChunkSizeThresholdBytes q))
           \<longrightarrow> currentSizeBytes targetShard \<le> currentSizeBytes otherShard))"
proof (intro conjI allI impI)
  fix c sib :: ChunkRangeInfo
  assume "- (2 ^ 63) \<le> sint (cri_estimatedSizeBytes c) + sint (cri_estimatedSizeBytes sib)
             \<and> sint (cri_estimatedSizeBytes c) + sint (cri_estimatedSizeBytes sib) < 2 ^ 63"
  then show "unat (rankMergeableSibling q c sib)
                 = rank_spec (cri_shard c = cri_shard sib) (sint (cri_estimatedSizeBytes c))
                     (sint (cri_estimatedSizeBytes sib))
                     (sint (mm_smallChunkSizeThresholdBytes q))"
    using rankMergeableSibling_value [of c sib q] by (simp add: rank_spec_def)
next
  let ?r = "\<lambda>s. rank_spec (cri_shard (snd cand) = cri_shard (snd s))
              (sint (cri_estimatedSizeBytes (snd cand))) (sint (cri_estimatedSizeBytes (snd s)))
              (sint (mm_smallChunkSizeThresholdBytes q))"
  have r1: "unat (rankMergeableSibling q (snd cand) (snd s1)) = ?r s1"
    using rankMergeableSibling_value [of "snd cand" "snd s1" q] assms(7)
    by (simp add: rank_spec_def)
  have r2: "unat (rankMergeableSibling q (snd cand) (snd s2)) = ?r s2"
    using rankMergeableSibling_value [of "snd cand" "snd s2" q] assms(7)
    by (simp add: rank_spec_def)
  define target where "target =
     (if rankMergeableSibling q (snd cand) (snd s2) > rankMergeableSibling q (snd cand) (snd s1)
      then s2
      else if rankMergeableSibling q (snd cand) (snd s2) = rankMergeableSibling q (snd cand) (snd s1)
               \<and> currentSizeBytes i2 < currentSizeBytes i1 then s2
      else s1)"
  have ch: "chooseTargetSibling q (snd cand) [s1, s2] = Inr target"
    unfolding target_def using assms(3,4,5) by (rule chooseTargetSibling_two)
  note res = popNextMigrationFrom_found [OF assms(1,2) ch assms(6), of rest]
  show "\<exists>target targetShard other otherShard.
          ((target, targetShard), (other, otherShard)) \<in> {((s1, i1), (s2, i2)), ((s2, i2), (s1, i1))}
        \<and> fst (popNextMigrationFrom cat (shardId # rest) usedShards p)
            = Inr (Some (asMigrateInfo (mm_uuid q) (mm_nss q) version (snd cand) (snd target)))
        \<and> mm_outstandingMigrations
              (snd (snd (popNextMigrationFrom cat (shardId # rest) usedShards p)))
            = mm_outstandingMigrations q @ [makeRequest cand target]
        \<and> ?r other \<le> ?r target
        \<and> (?r other = ?r target \<longrightarrow> currentSizeBytes targetShard \<le> currentSizeBytes otherShard)"
  proof -
    have lt: "rankMergeableSibling q (snd cand) (snd s2) > rankMergeableSibling q (snd cand) (snd s1)
                \<longleftrightarrow> ?r s1 < ?r s2"
      using r1 r2 by (simp add: word_less_nat_alt)
    have eq: "rankMergeableSibling q (snd cand) (snd s2) = rankMergeableSibling q (snd cand) (snd s1)
                \<longleftrightarrow> ?r s2 = ?r s1"
      using r1 r2 by (simp add: word_unat_eq_iff)
    have tgt: "target = (if ?r s1 < ?r s2 then s2
                         else if ?r s2 = ?r s1 \<and> currentSizeBytes i2 < currentSizeBytes i1 then s2
                         else s1)"
      unfolding target_def lt eq ..
    show ?thesis
    proof (cases "?r s1 < ?r s2 \<or> (?r s2 = ?r s1 \<and> currentSizeBytes i2 < currentSizeBytes i1)")
      case True
      then have t: "target = s2" using tgt by auto
      show ?thesis
        apply (rule exI [of _ s2], rule exI [of _ i2], rule exI [of _ s1], rule exI [of _ i1])
        using res True t by auto
    next
      case False
      then have t: "target = s1" using tgt by auto
      show ?thesis
        apply (rule exI [of _ s1], rule exI [of _ i1], rule exI [of _ s2], rule exI [of _ i2])
        using res False t by auto
    qed
  qed
qed

lemma find_three:
  "findNextSmallChunkInShard ''B'' {} phaseThree =
     Inr (phaseThree, Some ((1, smallChunk 10 20 ''B'' 5 False),
            [(2, smallChunk 20 30 ''C'' 40 False), (0, smallChunk 0 10 ''A'' 30 False)]))"
  by (simp add: mm_pop_defs phaseThree_def sample_defs)

theorem mm_sibling_rank_and_choice_witness:
  "''B'' \<notin> ({} :: ShardId set)
   \<and> findNextSmallChunkInShard ''B'' {} phaseThree =
       Inr (phaseThree, Some ((1, smallChunk 10 20 ''B'' 5 False),
              [(2, smallChunk 20 30 ''C'' 40 False), (0, smallChunk 0 10 ''A'' 30 False)]))
   \<and> unat (rankMergeableSibling phaseThree (smallChunk 10 20 ''B'' 5 False)
              (smallChunk 20 30 ''C'' 40 False)) = 10
   \<and> unat (rankMergeableSibling phaseThree (smallChunk 10 20 ''B'' 5 False)
              (smallChunk 0 10 ''A'' 30 False)) = 10
   \<and> fst (popNextMigrationFrom catalogThree [''B''] {} phaseThree) = Inr (Some migrateBA)"
proof -
  let ?s1 = "(2 :: nat, smallChunk 20 30 ''C'' 40 False)"
  let ?s2 = "(0 :: nat, smallChunk 0 10 ''A'' 30 False)"
  let ?cand = "(1 :: nat, smallChunk 10 20 ''B'' 5 False)"
  let ?iC = "\<lparr>currentSizeBytes = 40, maxSizeBytes = 0, draining = False\<rparr>"
  let ?iA = "\<lparr>currentSizeBytes = 30, maxSizeBytes = 0, draining = False\<rparr>"
  have a: "''B'' \<notin> ({} :: ShardId set)" by simp
  have c: "fst ?s1 \<noteq> fst ?s2" by simp
  have d: "map_of (mm_shardInfos phaseThree) (cri_shard (snd ?s1)) = Some ?iC"
    by (simp add: phaseThree_def smallChunk_def)
  have e: "map_of (mm_shardInfos phaseThree) (cri_shard (snd ?s2)) = Some ?iA"
    by (simp add: phaseThree_def smallChunk_def)
  have f: "getShardVersion catalogThree (cri_shard (snd ?cand)) (mm_uuid phaseThree)
             = Inr sampleVersion"
    by (simp add: getShardVersion_def catalogThree_def phaseThree_def sample_defs)
  have g: "\<forall>sib \<in> {snd ?s1, snd ?s2}.
           - (2 ^ 63) \<le> sint (cri_estimatedSizeBytes (snd ?cand)) + sint (cri_estimatedSizeBytes sib)
           \<and> sint (cri_estimatedSizeBytes (snd ?cand)) + sint (cri_estimatedSizeBytes sib) < 2 ^ 63"
    by (simp add: smallChunk_def)
  note main = mm_sibling_rank_and_choice [OF a find_three c d e f g, of "[]"]
  from main have ranks:
    "\<forall>c sib. - (2 ^ 63) \<le> sint (cri_estimatedSizeBytes c) + sint (cri_estimatedSizeBytes sib)
             \<and> sint (cri_estimatedSizeBytes c) + sint (cri_estimatedSizeBytes sib) < 2 ^ 63
           \<longrightarrow> unat (rankMergeableSibling phaseThree c sib)
                 = rank_spec (cri_shard c = cri_shard sib) (sint (cri_estimatedSizeBytes c))
                     (sint (cri_estimatedSizeBytes sib))
                     (sint (mm_smallChunkSizeThresholdBytes phaseThree))"
    by blast
  have r1: "unat (rankMergeableSibling phaseThree (snd ?cand) (snd ?s1)) = 10"
    using ranks [rule_format, of "snd ?cand" "snd ?s1"]
    by (simp add: smallChunk_def rank_spec_def phaseThree_def)
  have r2: "unat (rankMergeableSibling phaseThree (snd ?cand) (snd ?s2)) = 10"
    using ranks [rule_format, of "snd ?cand" "snd ?s2"]
    by (simp add: smallChunk_def rank_spec_def phaseThree_def)
  from main obtain target targetShard other otherShard where
    t: "((target, targetShard), (other, otherShard)) \<in> {((?s1, ?iC), (?s2, ?iA)), ((?s2, ?iA), (?s1, ?iC))}"
       "fst (popNextMigrationFrom catalogThree [''B''] {} phaseThree)
            = Inr (Some (asMigrateInfo (mm_uuid phaseThree) (mm_nss phaseThree) sampleVersion
                           (snd ?cand) (snd target)))"
       "rank_spec (cri_shard (snd ?cand) = cri_shard (snd other))
              (sint (cri_estimatedSizeBytes (snd ?cand))) (sint (cri_estimatedSizeBytes (snd other)))
              (sint (mm_smallChunkSizeThresholdBytes phaseThree))
           = rank_spec (cri_shard (snd ?cand) = cri_shard (snd target))
              (sint (cri_estimatedSizeBytes (snd ?cand))) (sint (cri_estimatedSizeBytes (snd target)))
              (sint (mm_smallChunkSizeThresholdBytes phaseThree))
           \<longrightarrow> currentSizeBytes targetShard \<le> currentSizeBytes otherShard"
    by blast
  have "target = ?s2"
    using t(1,3) by (auto simp: smallChunk_def rank_spec_def phaseThree_def)
  then have "fst (popNextMigrationFrom catalogThree [''B''] {} phaseThree) = Inr (Some migrateBA)"
    using t(2) by (simp add: asMigrateInfo_def smallChunk_def phaseThree_def migrateBA_def
        rangeOf_def)
  then show ?thesis using a find_three r1 r2 by simp
qed
section \<open>The destination of a migration\<close>

lemma canReceiveNewChunks_iff:
  "canReceiveNewChunks info \<longleftrightarrow>
     \<not> draining info \<and> (maxSizeBytes info = 0 \<or> currentSizeBytes info < maxSizeBytes info)"
  by (simp add: canReceiveNewChunks_def)

text \<open>
  C8, as the specification words it, fails for a sibling on the candidate's own shard:
  \<^verbatim>\<open>canBeMoveAndMerged\<close> accepts it without looking at the shard, so two small adjacent
  chunks on a draining shard yield a migration whose destination is that draining shard.
\<close>

theorem mm_destination_counterexample:
  "fst (mm_popNextMigration catalogDraining {} phaseDraining) =
     Inr (Some \<lparr>mig_nss = ''db.coll'', mig_uuid = 7, mig_to = ''A'', mig_from = ''A'',
                mig_minKey = keyAt 0, mig_maxKey = keyAt 10, mig_version = sampleVersion\<rparr>)
   \<and> map_of (mm_shardInfos phaseDraining) ''A''
       = Some \<lparr>currentSizeBytes = 10, maxSizeBytes = 0, draining = True\<rparr>"
  by (simp add: pop_draining) (simp add: phaseDraining_def)

text \<open>
  C8, amended: for every migration returned by \<^verbatim>\<open>popNextMigration\<close> whose destination
  differs from its source, the destination shard is known to the phase, is not draining
  and has room (\<open>maxSizeBytes = 0\<close> or \<open>currentSizeBytes < maxSizeBytes\<close>); and a sibling
  on another shard than the chunk is only mergeable when its shard satisfies the same.
\<close>

theorem mm_destination_can_receive:
  assumes "mm_popNextMigration cat usedShards p = (Inr (Some m), usedShards', p')"
  shows "(mig_to m \<noteq> mig_from m \<longrightarrow>
            (\<exists>info. map_of (mm_shardInfos p) (mig_to m) = Some info
                   \<and> \<not> draining info
                   \<and> (maxSizeBytes info = 0 \<or> currentSizeBytes info < maxSizeBytes info)))
       \<and> (\<forall>chunkIt chunk siblings s.
             getChunkSiblings p chunkIt chunk = Inr siblings \<and> s \<in> set siblings
               \<and> cri_shard (snd s) \<noteq> cri_shard chunk \<longrightarrow>
             (\<exists>info. map_of (mm_shardInfos p) (cri_shard (snd s)) = Some info
                   \<and> \<not> draining info
                   \<and> (maxSizeBytes info = 0 \<or> currentSizeBytes info < maxSizeBytes info)))"
proof (intro conjI impI allI)
  assume ne: "mig_to m \<noteq> mig_from m"
  from popNextMigrationFrom_Some [OF assms [unfolded mm_popNextMigration_def]]
  obtain shardId cand target where
    "canBeMoveAndMerged p cand target = Inr True"
    "mig_from m = cri_shard cand" "mig_to m = cri_shard target"
    unfolding migrationChoice_def by blast
  with ne canBeMoveAndMerged_True [of p cand target]
  show "\<exists>info. map_of (mm_shardInfos p) (mig_to m) = Some info \<and> \<not> draining info
           \<and> (maxSizeBytes info = 0 \<or> currentSizeBytes info < maxSizeBytes info)"
    by (auto simp: canReceiveNewChunks_iff)
next
  fix chunkIt chunk siblings s
  assume h: "getChunkSiblings p chunkIt chunk = Inr siblings \<and> s \<in> set siblings
               \<and> cri_shard (snd s) \<noteq> cri_shard chunk"
  then have "canBeMoveAndMerged p chunk (snd s) = Inr True"
    using getChunkSiblings_mergeable by blast
  with h canBeMoveAndMerged_True [of p chunk "snd s"]
  show "\<exists>info. map_of (mm_shardInfos p) (cri_shard (snd s)) = Some info \<and> \<not> draining info
           \<and> (maxSizeBytes info = 0 \<or> currentSizeBytes info < maxSizeBytes info)"
    by (auto simp: canReceiveNewChunks_iff)
qed

theorem mm_destination_can_receive_witness:
  "fst (mm_popNextMigration catalogThree {} phaseThree) =
     Inr (Some \<lparr>mig_nss = ''db.coll'', mig_uuid = 7, mig_to = ''A'', mig_from = ''B'',
                 mig_minKey = keyAt 10, mig_maxKey = keyAt 20, mig_version = sampleVersion\<rparr>)
   \<and> (\<exists>info. map_of (mm_shardInfos phaseThree) ''A'' = Some info \<and> \<not> draining info
         \<and> (maxSizeBytes info = 0 \<or> currentSizeBytes info < maxSizeBytes info))"
  using mm_destination_can_receive [OF pop_three] by (simp add: pop_three migrateBA_def)

section \<open>Splitting phase: the reply to a request for split points\<close>

lemma sint_add_no_overflow:
  fixes a b :: "32 word"
  assumes "0 \<le> sint a" "0 \<le> sint b" "sint a + sint b < 2 ^ 31"
  shows "sint (a + b) = sint a + sint b"
  using assms by (simp add: sint_word_ariths signed_take_bit_int_eq_self)

lemma foldl_addBSONSize_sint:
  "0 \<le> sint a \<Longrightarrow> \<forall>k \<in> set keys. 0 \<le> sint (objsize k)
   \<Longrightarrow> sint a + (\<Sum>k\<leftarrow>keys. sint (objsize k)) < 2 ^ 31
   \<Longrightarrow> sint (foldl addBSONSize a keys) = sint a + (\<Sum>k\<leftarrow>keys. sint (objsize k))"
proof (induction keys arbitrary: a)
  case Nil
  then show ?case by simp
next
  case (Cons k keys)
  have nonneg: "0 \<le> (\<Sum>k\<leftarrow>keys. sint (objsize k))"
    using Cons.prems(2) by (intro sum_list_nonneg) auto
  have step: "sint (a + objsize k) = sint a + sint (objsize k)"
    using Cons.prems nonneg by (intro sint_add_no_overflow) auto
  have "sint (foldl addBSONSize (a + objsize k) keys)
          = sint (a + objsize k) + (\<Sum>k\<leftarrow>keys. sint (objsize k))"
    using Cons.prems step by (intro Cons.IH) auto
  moreover have "addBSONSize a k = a + objsize k" by (simp add: addBSONSize_def)
  ultimately show ?case by (simp add: step)
qed

lemma moreSplitPointsToReceive_iff:
  assumes "\<forall>k \<in> set keys. 0 \<le> sint (objsize k)"
    and "(\<Sum>k\<leftarrow>keys. sint (objsize k)) < 2 ^ 31"
    and "- (2 ^ 31) \<le> sint maxUser - 4096"
  shows "moreSplitPointsToReceive maxUser keys
     \<longleftrightarrow> (\<Sum>k\<leftarrow>keys. sint (objsize k)) \<ge> sint maxUser - 4096"
proof -
  have total: "sint (foldl addBSONSize 0 keys) = (\<Sum>k\<leftarrow>keys. sint (objsize k))"
    using foldl_addBSONSize_sint [of 0 keys] assms by simp
  have "sint maxUser < 2 ^ 31" using sint_lt [of maxUser] by simp
  then have limit: "sint (maxUser - 4096) = sint maxUser - 4096"
    using assms(3) by (simp add: sint_word_ariths signed_take_bit_int_eq_self)
  show ?thesis by (simp add: moreSplitPointsToReceive_def total limit)
qed


lemma SplitPendingActions_literal:
  "e\<lparr>rangesToSplit := x, rangesToFindSplitPoints := y\<rparr>
     = \<lparr>rangesToFindSplitPoints = y, rangesToSplit = x\<rparr>"
  by (cases e) simp

lemma sc_autoSplit_success_pending:
  assumes "\<not> sc_aborted p" "keys \<noteq> []"
  shows "sc_pendingActionsByShards
           (snd (sc_applyActionResult maxUser (AutoSplitVector a)
                   (SplitPointsStatus (Value keys)) p)) =
         map_index (asv_shardId a) emptySplitPendingActions
           (\<lambda>e. \<lparr>rangesToFindSplitPoints =
                    (if moreSplitPointsToReceive maxUser keys
                     then rangesToFindSplitPoints e @
                            [\<lparr>getMin = last keys, getMax = asv_maxKey a\<rparr>]
                     else rangesToFindSplitPoints e),
                  rangesToSplit = rangesToSplit e @
                    [(\<lparr>getMin = asv_minKey a, getMax = asv_maxKey a\<rparr>, keys)]\<rparr>)
           (sc_pendingActionsByShards p)"
  using assms
  by (simp add: sc_applyActionResult_def sc_applyAutoSplitVectorResult_def
      handleActionResult_def SplitPendingActions_literal)

lemma sc_autoSplit_success_empty:
  "sc_pendingActionsByShards
     (snd (sc_applyActionResult maxUser (AutoSplitVector a) (SplitPointsStatus (Value [])) p))
   = sc_pendingActionsByShards p"
  by (simp add: sc_applyActionResult_def sc_applyAutoSplitVectorResult_def
      handleActionResult_def)

lemma sum_sizes_uniform:
  "(\<Sum>k\<leftarrow>map (\<lambda>i. BSONObj (f i) c) xs. sint (objsize k)) = int (length xs) * sint c"
  by (induction xs) (simp_all add: algebra_simps)

lemma manyKeys_sizes: "\<forall>k \<in> set manyKeys. sint (objsize k) = 16"
  unfolding manyKeys_def by (simp only: set_map ball_simps BSONObj.sel) simp

lemma manyKeys_total: "(\<Sum>k\<leftarrow>manyKeys. sint (objsize k)) = 16773120"
  unfolding manyKeys_def by (simp only: sum_sizes_uniform length_upt) simp

lemma manyKeys_nonempty: "manyKeys \<noteq> []"
proof
  assume "manyKeys = []"
  then have "(\<Sum>k\<leftarrow>manyKeys. sint (objsize k)) = 0" by simp
  then show False by (simp add: manyKeys_total)
qed

text \<open>
  C9, as the specification words it, fails at the boundary: \<^verbatim>\<open>moreSplitPointsToReceive\<close>
  compares with \<^verbatim>\<open>>=\<close>, so a reply whose keys add up to exactly
  \<^verbatim>\<open>BSONObjMaxUserSize - 4096\<close> bytes, which does not exceed that bound, still queues
  the rest of the range for another scan.
\<close>

theorem sc_continuation_at_limit_counterexample:
  "(\<Sum>k\<leftarrow>manyKeys. sint (objsize k)) = sint sixteenMB - 4096
   \<and> \<not> (\<Sum>k\<leftarrow>manyKeys. sint (objsize k)) > sint sixteenMB - 4096
   \<and> map_of (sc_pendingActionsByShards
        (snd (sc_applyActionResult sixteenMB (AutoSplitVector autoSplitA)
           (SplitPointsStatus (Value manyKeys)) splitOutstanding))) ''A''
     = Some \<lparr>rangesToFindSplitPoints = [\<lparr>getMin = last manyKeys, getMax = keyAt 2000000\<rparr>],
              rangesToSplit = [(rangeOf 0 2000000, manyKeys)]\<rparr>"
proof -
  have a: "\<not> sc_aborted splitOutstanding" by (simp add: splitOutstanding_def)
  have more: "moreSplitPointsToReceive sixteenMB manyKeys"
    using manyKeys_sizes
    by (subst moreSplitPointsToReceive_iff) (simp_all add: manyKeys_total sixteenMB_def)
  have total: "(\<Sum>k\<leftarrow>manyKeys. sint (objsize k)) = sint sixteenMB - 4096"
    by (simp add: manyKeys_total sixteenMB_def)
  have pending: "map_of (sc_pendingActionsByShards
        (snd (sc_applyActionResult sixteenMB (AutoSplitVector autoSplitA)
           (SplitPointsStatus (Value manyKeys)) splitOutstanding))) ''A''
     = Some \<lparr>rangesToFindSplitPoints = [\<lparr>getMin = last manyKeys, getMax = keyAt 2000000\<rparr>],
              rangesToSplit = [(rangeOf 0 2000000, manyKeys)]\<rparr>"
    unfolding sc_autoSplit_success_pending [OF a manyKeys_nonempty] map_of_map_index
    by (simp add: more splitOutstanding_def autoSplitA_def emptySplitPendingActions_def
        rangeOf_def)
  show ?thesis using total pending by simp
qed

text \<open>
  C9, amended: in a splitting phase that has not been aborted, a successful reply to
  FindSplitPoints with a non-empty key list queues the pair (queried range, returned keys)
  on the \<open>rangesToSplit\<close> of the owning shard, and queues (last returned key, original
  max) on its \<open>rangesToFindSplitPoints\<close> if and only if the accumulated size of the keys
  is at least \<^verbatim>\<open>BSONObjMaxUserSize - 4096\<close>; the entries of other shards are untouched, and
  a successful reply with an empty key list queues nothing. The sizes are C++ \<^verbatim>\<open>int\<close>s:
  the statement is for non-negative sizes whose total, and the bound, are in range.
\<close>

theorem sc_findSplitPoints_success:
  assumes "\<not> sc_aborted p"
    and "\<forall>k \<in> set keys. 0 \<le> sint (objsize k)"
    and "(\<Sum>k\<leftarrow>keys. sint (objsize k)) < 2 ^ 31"
    and "- (2 ^ 31) \<le> sint maxUser - 4096"
  shows "let p' = snd (sc_applyActionResult maxUser (AutoSplitVector a)
                         (SplitPointsStatus (Value keys)) p);
             old = (case map_of (sc_pendingActionsByShards p) (asv_shardId a) of
                      None \<Rightarrow> emptySplitPendingActions | Some e \<Rightarrow> e)
         in (keys = [] \<longrightarrow> sc_pendingActionsByShards p' = sc_pendingActionsByShards p)
          \<and> (keys \<noteq> [] \<longrightarrow>
               map_of (sc_pendingActionsByShards p') (asv_shardId a) =
                 Some \<lparr>rangesToFindSplitPoints = rangesToFindSplitPoints old @
                          (if sint maxUser - 4096 \<le> (\<Sum>k\<leftarrow>keys. sint (objsize k))
                           then [\<lparr>getMin = last keys, getMax = asv_maxKey a\<rparr>] else []),
                        rangesToSplit = rangesToSplit old @
                          [(\<lparr>getMin = asv_minKey a, getMax = asv_maxKey a\<rparr>, keys)]\<rparr>
               \<and> (\<forall>s. s \<noteq> asv_shardId a \<longrightarrow>
                     map_of (sc_pendingActionsByShards p') s
                       = map_of (sc_pendingActionsByShards p) s))"
proof (cases "keys = []")
  case True
  then show ?thesis by (simp add: sc_autoSplit_success_empty Let_def)
next
  case False
  have more: "moreSplitPointsToReceive maxUser keys
     \<longleftrightarrow> sint maxUser - 4096 \<le> (\<Sum>k\<leftarrow>keys. sint (objsize k))"
    using assms(2-4) by (rule moreSplitPointsToReceive_iff)
  show ?thesis
    using False
    by (simp add: sc_autoSplit_success_pending [OF assms(1) False] map_of_map_index more
        Let_def)
qed

theorem sc_findSplitPoints_success_witness:
  "\<not> sc_aborted splitOutstanding
   \<and> sc_pendingActionsByShards
        (snd (sc_applyActionResult sixteenMB (AutoSplitVector autoSplitA)
           (SplitPointsStatus (Value [keyAt 30, keyAt 60])) splitOutstanding))
     = [(''A'', \<lparr>rangesToFindSplitPoints = [],
                   rangesToSplit = [(rangeOf 0 2000000, [keyAt 30, keyAt 60])]\<rparr>)]
   \<and> map_of (sc_pendingActionsByShards
        (snd (sc_applyActionResult sixteenMB (AutoSplitVector autoSplitA)
           (SplitPointsStatus (Value [keyAt 30, keyAt 60])) splitOutstanding))) ''A''
     = Some \<lparr>rangesToFindSplitPoints = [],
              rangesToSplit = [(rangeOf 0 2000000, [keyAt 30, keyAt 60])]\<rparr>"
proof -
  have a: "\<not> sc_aborted splitOutstanding" by (simp add: splitOutstanding_def)
  have b: "\<forall>k \<in> set [keyAt 30, keyAt 60]. 0 \<le> sint (objsize k)"
    by (simp add: keyAt_def)
  have c: "(\<Sum>k\<leftarrow>[keyAt 30, keyAt 60]. sint (objsize k)) < 2 ^ 31"
    by (simp add: keyAt_def)
  have d: "- (2 ^ 31) \<le> sint sixteenMB - 4096" by (simp add: sixteenMB_def)
  have e: "sc_pendingActionsByShards
        (snd (sc_applyActionResult sixteenMB (AutoSplitVector autoSplitA)
           (SplitPointsStatus (Value [keyAt 30, keyAt 60])) splitOutstanding))
     = [(''A'', \<lparr>rangesToFindSplitPoints = [],
                   rangesToSplit = [(rangeOf 0 2000000, [keyAt 30, keyAt 60])]\<rparr>)]"
    by (simp add: sc_applyActionResult_def sc_applyAutoSplitVectorResult_def
        handleActionResult_def map_index_def splitOutstanding_def autoSplitA_def
        emptySplitPendingActions_def moreSplitPointsToReceive_def addBSONSize_def
        sixteenMB_def keyAt_def rangeOf_def)
  show ?thesis
    using a e sc_findSplitPoints_success [OF a b c d, of autoSplitA]
    by (simp add: Let_def)
qed

section \<open>Selecting chunks to move ends, with one migration per shard\<close>

lemma select_four:
  "selectChunksToMove catalogFour {} policyFour
     = Some (None, [migrateCD, migrateAB], {''A'', ''B'', ''C'', ''D''},
             policyFour\<lparr>defragmentationStates :=
               [(7, MoveAndMergeChunks (phaseFour
                  \<lparr>mm_collectionChunks :=
                     [(0, smallChunk 0 10 ''A'' 5 True), (1, smallChunk 10 20 ''B'' 80 True),
                      (2, smallChunk 20 30 ''C'' 5 True), (3, smallChunk 30 40 ''D'' 80 True)],
                   mm_outstandingMigrations := [requestCD, requestAB]\<rparr>))]\<rparr>)"
  unfolding selectChunksToMove_def
  apply (subst selectChunksLoop.simps)
  apply (simp add: policyFour_def refreshDefragmentationPhaseFor_def mm_isComplete_def
      mm_pop_defs catalogFour_def phaseFour_def requestAB_def requestCD_def migrateAB_def
      migrateCD_def sample_defs map_of_map_put)
  apply (subst selectChunksLoop.simps)
  apply (simp add: refreshDefragmentationPhaseFor_def mm_isComplete_def
      mm_pop_defs catalogFour_def phaseFour_def requestAB_def requestCD_def migrateAB_def
      migrateCD_def sample_defs map_of_map_put)
  apply (subst selectChunksLoop.simps)
  apply (simp add: refreshDefragmentationPhaseFor_def mm_isComplete_def
      mm_pop_defs catalogFour_def phaseFour_def requestAB_def requestCD_def migrateAB_def
      migrateCD_def sample_defs map_of_map_put)
  apply (auto simp: policyFour_def)
  done

text \<open>
  Claim C10. With a catalog that does not change during the call, every call of
  \<^verbatim>\<open>selectChunksToMove\<close> returns (or stops at a failure that is not a \<^verbatim>\<open>DBException\<close>), in
  every state of the policy: the loop that refreshes a completed phase ends, and so does
  the loop over the passes. The used shards only grow and contain the source and the
  destination of every migration returned. The destination of each migration is a shard
  that was neither used at the start of the call nor the source or destination of a
  migration returned before it, so the destinations are distinct and there are at most as
  many migrations as there are known shards not used at the start. When the index of small
  chunks of every move-and-merge phase is sound, as \<^verbatim>\<open>build\<close> leaves it and
  \<^verbatim>\<open>popNextMigration\<close> keeps it, the same holds of the source (the owner of the candidate
  chunk): no shard is the source or destination of two migrations of the list.
\<close>

theorem selectChunksToMove_ends_one_migration_per_shard:
  "\<exists>failure chunksToMove usedShards' s'.
      selectChunksToMove cat usedShards s = Some (failure, chunksToMove, usedShards', s')
    \<and> usedShards \<subseteq> usedShards'
    \<and> shardsOf chunksToMove \<subseteq> usedShards'
    \<and> freshTargets usedShards chunksToMove
    \<and> distinct (map mig_to chunksToMove)
    \<and> mig_to ` set chunksToMove \<inter> usedShards = {}
    \<and> length chunksToMove \<le> card (knownShards cat (defragmentationStates s) - usedShards)
    \<and> (statesSound (defragmentationStates s)
         \<longrightarrow> freshShards usedShards chunksToMove
             \<and> distinct (map mig_from chunksToMove)
             \<and> mig_from ` set chunksToMove \<inter> usedShards = {}
             \<and> statesSound (defragmentationStates s'))"
proof -
  let ?states = "defragmentationStates s"
  from selectChunksLoop_result [of cat ?states usedShards "[]"] obtain r where
    loop: "selectChunksLoop cat ?states usedShards [] = Some r"
    and res: "passResult cat [] ?states usedShards [] r" by blast
  let ?ms = "snd (snd (snd r))" and ?used' = "fst (snd (snd r))"
  let ?s' = "s\<lparr>defragmentationStates := fst (snd r)\<rparr>"
  have call: "selectChunksToMove cat usedShards s = Some (fst r, ?ms, ?used', ?s')"
    by (simp add: selectChunksToMove_def loop)
  have k0: "knownShards cat [] = {}" by (simp add: knownShards_def)
  from res have
    a: "usedShards \<subseteq> ?used'" "?used' \<subseteq> usedShards \<union> knownShards cat ?states"
       "shardsOf ?ms \<subseteq> ?used'" "freshTargets usedShards ?ms"
       "statesSound ?states \<longrightarrow> freshShards usedShards ?ms"
       "statesSound ?states \<longrightarrow> statesSound (fst (snd r))"
    unfolding passResult_def k0 by (auto simp: statesSound_simps)
  from freshTargets_distinct [OF a(4)]
  have d: "distinct (map mig_to ?ms)" "mig_to ` set ?ms \<inter> usedShards = {}" by simp_all
  have "mig_to ` set ?ms \<subseteq> knownShards cat ?states - usedShards"
  proof
    fix x assume x: "x \<in> mig_to ` set ?ms"
    then have "x \<in> ?used'" using a(3) by (auto simp: shardsOf_def)
    moreover have "x \<notin> usedShards" using x d(2) by auto
    ultimately show "x \<in> knownShards cat ?states - usedShards" using a(2) by auto
  qed
  then have "card (mig_to ` set ?ms) \<le> card (knownShards cat ?states - usedShards)"
    by (intro card_mono) (simp_all add: finite_knownShards)
  moreover have "card (mig_to ` set ?ms) = length ?ms"
    using d(1) distinct_card [of "map mig_to ?ms"] by simp
  ultimately have len: "length ?ms \<le> card (knownShards cat ?states - usedShards)" by simp
  have snd': "statesSound ?states
         \<longrightarrow> freshShards usedShards ?ms \<and> distinct (map mig_from ?ms)
             \<and> mig_from ` set ?ms \<inter> usedShards = {}
             \<and> statesSound (defragmentationStates ?s')"
    using a(5,6) freshShards_distinct [of usedShards ?ms] by auto
  show ?thesis
    using call a(1,3,4) d len snd' by blast
qed

theorem selectChunksToMove_ends_one_migration_per_shard_witness:
  "statesSound (defragmentationStates policyFour)
   \<and> (\<exists>failure usedShards' s'.
         selectChunksToMove catalogFour {} policyFour
           = Some (failure, [migrateCD, migrateAB], usedShards', s')
       \<and> statesSound (defragmentationStates s'))
   \<and> freshShards {} [migrateCD, migrateAB]
   \<and> distinct (map mig_from [migrateCD, migrateAB])
   \<and> length [migrateCD, migrateAB]
        \<le> card (knownShards catalogFour (defragmentationStates policyFour) - {})"
proof -
  have sound: "statesSound (defragmentationStates policyFour)"
    by (auto simp: statesSound_def policyFour_def smallIndexSound_def phaseFour_def
             smallChunk_def split: if_splits)
  note main = selectChunksToMove_ends_one_migration_per_shard [of catalogFour "{}" policyFour]
  from main obtain failure chunksToMove usedShards' s' where
    call: "selectChunksToMove catalogFour {} policyFour
          = Some (failure, chunksToMove, usedShards', s')"
    and rest: "usedShards' \<supseteq> {} \<and> shardsOf chunksToMove \<subseteq> usedShards'
    \<and> freshTargets {} chunksToMove
    \<and> distinct (map mig_to chunksToMove)
    \<and> mig_to ` set chunksToMove \<inter> {} = {}
    \<and> length chunksToMove \<le> card (knownShards catalogFour (defragmentationStates policyFour) - {})
    \<and> (statesSound (defragmentationStates policyFour)
         \<longrightarrow> freshShards {} chunksToMove
             \<and> distinct (map mig_from chunksToMove)
             \<and> mig_from ` set chunksToMove \<inter> {} = {}
             \<and> statesSound (defragmentationStates s'))"
    by (elim exE conjE) (rule that, assumption, intro conjI, assumption+)
  from call have ms: "chunksToMove = [migrateCD, migrateAB]"
    by (simp add: select_four)
  from rest have len: "length chunksToMove
          \<le> card (knownShards catalogFour (defragmentationStates policyFour) - {})"
    by (elim conjE)
  from rest sound have s: "freshShards {} chunksToMove \<and> distinct (map mig_from chunksToMove)
      \<and> statesSound (defragmentationStates s')"
    by (elim conjE impE) (assumption, intro conjI, assumption+)
  have ex: "\<exists>failure usedShards' s'.
         selectChunksToMove catalogFour {} policyFour
           = Some (failure, [migrateCD, migrateAB], usedShards', s')
       \<and> statesSound (defragmentationStates s')"
    using call s unfolding ms by (intro exI [of _ failure] exI [of _ usedShards'] exI [of _ s']) (elim conjE, intro conjI, assumption+)
  have f: "freshShards {} [migrateCD, migrateAB]"
    using s unfolding ms by (elim conjE)
  have d: "distinct (map mig_from [migrateCD, migrateAB])"
    using s unfolding ms by (elim conjE)
  have l: "length [migrateCD, migrateAB]
        \<le> card (knownShards catalogFour (defragmentationStates policyFour) - {})"
    using len unfolding ms .
  show ?thesis
    by (rule conjI sound ex f d l)+
qed

end
